theory Spec2Isabelle
  imports Complex_Main
begin

section \<open>Python values handled by the agent\<close>

text \<open>
  A Python float is an IEEE double. The code only classifies floats with
  \<^verbatim>\<open>math.isnan\<close> and \<^verbatim>\<open>math.isinf\<close> and compares them with
  the bounds of the schema, so a finite double is represented by the rational
  number it denotes (every finite double is one; the sign of zero is not kept).
\<close>

datatype pyfloat = Finite rat | NaN | PosInf | NegInf

fun math_isnan :: "pyfloat \<Rightarrow> bool" where
  "math_isnan NaN = True"
| "math_isnan _ = False"

fun math_isinf :: "pyfloat \<Rightarrow> bool" where
  "math_isinf PosInf = True"
| "math_isinf NegInf = True"
| "math_isinf _ = False"

text \<open>\<^verbatim>\<open>datetime.date\<close>: year, month, day.\<close>

datatype pydate = Date int int int

text \<open>
  The objects that reach \<^verbatim>\<open>_json_safe\<close>: \<^verbatim>\<open>None\<close>, floats, dicts with
  string keys (\<^verbatim>\<open>Dict[str, Any]\<close>, kept as an association list because a dict
  keeps its insertion order), lists, and the other scalars of a dumped model
  (bool, int, str, date), which the last branch of the function returns as they are.
\<close>

datatype pyobj =
    PNone
  | PFloat pyfloat
  | PDict "(string \<times> pyobj) list"
  | PList "pyobj list"
  | PBool bool
  | PInt int
  | PStr string
  | PDate pydate

section \<open>JSON safety (graph.py, \<^verbatim>\<open>_json_safe\<close>)\<close>

fun json_safe :: "pyobj \<Rightarrow> pyobj" where
  "json_safe PNone = PNone"
| "json_safe (PFloat f) = (if math_isnan f \<or> math_isinf f then PNone else PFloat f)"
| "json_safe (PDict kvs) = PDict (map (\<lambda>(k, v). (k, json_safe v)) kvs)"
| "json_safe (PList xs) = PList (map json_safe xs)"
| "json_safe obj = obj"

text \<open>
  The words of the specification, as predicates of their own: a structure is
  free of non-finite floats when no float below its dicts and lists is NaN or
  an infinity.
\<close>

fun nonfinite_free :: "pyobj \<Rightarrow> bool" where
  "nonfinite_free (PFloat f) = (\<not> math_isnan f \<and> \<not> math_isinf f)"
| "nonfinite_free (PDict kvs) = list_all (\<lambda>(k, v). nonfinite_free v) kvs"
| "nonfinite_free (PList xs) = list_all nonfinite_free xs"
| "nonfinite_free obj = True"

section \<open>Python string methods used by the schema\<close>

text \<open>
  Strings are lists of characters. The methods below follow CPython on ASCII
  text: the whitespace of \<^verbatim>\<open>str.strip\<close> and \<^verbatim>\<open>str.split\<close> is tab, line
  feed, vertical tab, form feed, carriage return, the four separators
  \<^verbatim>\<open>\x1c\<close> to \<^verbatim>\<open>\x1f\<close> and the space; the cased characters of
  \<^verbatim>\<open>str.title\<close> are the letters a-z and A-Z. Characters above 127 are taken as
  neither whitespace nor cased.
\<close>

definition py_isspace :: "char \<Rightarrow> bool" where
  "py_isspace c = ((9 \<le> (of_char c :: nat) \<and> (of_char c :: nat) \<le> 13)
     \<or> (28 \<le> (of_char c :: nat) \<and> (of_char c :: nat) \<le> 32))"

definition py_islower :: "char \<Rightarrow> bool" where
  "py_islower c = (97 \<le> (of_char c :: nat) \<and> (of_char c :: nat) \<le> 122)"

definition py_isupper :: "char \<Rightarrow> bool" where
  "py_isupper c = (65 \<le> (of_char c :: nat) \<and> (of_char c :: nat) \<le> 90)"

definition py_toupper :: "char \<Rightarrow> char" where
  "py_toupper c = (if py_islower c then char_of ((of_char c :: nat) - 32) else c)"

definition py_tolower :: "char \<Rightarrow> char" where
  "py_tolower c = (if py_isupper c then char_of ((of_char c :: nat) + 32) else c)"

definition py_strip :: "string \<Rightarrow> string" where
  "py_strip s = rev (dropWhile py_isspace (rev (dropWhile py_isspace s)))"

text \<open>
  \<^verbatim>\<open>s.split()\<close> with no separator: the maximal runs of non-whitespace, in
  order. The first argument is the word being read, reversed.
\<close>

fun split_scan :: "string \<Rightarrow> string \<Rightarrow> string list" where
  "split_scan w [] = (if w = [] then [] else [rev w])"
| "split_scan w (c # cs) =
     (if py_isspace c
      then (if w = [] then split_scan [] cs else rev w # split_scan [] cs)
      else split_scan (c # w) cs)"

definition py_split :: "string \<Rightarrow> string list" where
  "py_split s = split_scan [] s"

fun py_join :: "string \<Rightarrow> string list \<Rightarrow> string" where
  "py_join sep [] = []"
| "py_join sep [x] = x"
| "py_join sep (x # y # ys) = x @ sep @ py_join sep (y # ys)"

text \<open>
  \<^verbatim>\<open>s.title()\<close>: a cased character is made upper case when the character
  before it is not cased, and lower case when it is. The flag is CPython's
  \<^verbatim>\<open>previous_is_cased\<close>.
\<close>

fun title_scan :: "bool \<Rightarrow> string \<Rightarrow> string" where
  "title_scan previous_is_cased [] = []"
| "title_scan previous_is_cased (c # cs) =
     (if py_islower c then
        (if previous_is_cased then c else py_toupper c) # title_scan True cs
      else if py_isupper c then
        (if previous_is_cased then py_tolower c else c) # title_scan True cs
      else c # title_scan False cs)"

definition py_title :: "string \<Rightarrow> string" where
  "py_title s = title_scan False s"

section \<open>JSON documents and validation errors\<close>

text \<open>
  What the JSON parser of the validation library hands to the schema. An object
  is an association list with one entry for each key (of a repeated key the
  parser keeps the last value); a key is looked up with \<open>map_of\<close>. Numbers without
  fraction or exponent are integers, the others floats, and the parser also
  accepts the literals NaN, Infinity and -Infinity.
\<close>

datatype json =
    JNull
  | JBool bool
  | JInt int
  | JFloat pyfloat
  | JStr string
  | JArr "json list"
  | JObj "(string \<times> json) list"

datatype loc_item = Key string | Idx nat

text \<open>One line of a \<^verbatim>\<open>ValidationError\<close>: where, and the kind of error.\<close>

type_synonym verr = "loc_item list \<times> string"

type_synonym 'a vres = "verr list + 'a"

text \<open>
  The validation library is not part of the repository. The model fixes what
  the schema declarations fix (types, bounds, lengths, the literal set, defaults,
  the after-validator) and takes as parameters what belongs to the library alone:
  its JSON parser, its lax conversions of a value of another JSON type to an
  integer or a float, its reading of a date, and the text of
  \<^verbatim>\<open>str(e)\<close> for a \<^verbatim>\<open>ValidationError\<close>.
\<close>

record pydantic =
  parse_json :: "string \<Rightarrow> json option"
  lax_int :: "json \<Rightarrow> int option"
  lax_float :: "json \<Rightarrow> pyfloat option"
  to_date :: "json \<Rightarrow> pydate option"
  error_str :: "verr list \<Rightarrow> string"

definition err :: "string \<Rightarrow> 'a vres" where
  "err kind = Inl [([], kind)]"

text \<open>Errors of all fields are collected, in field order.\<close>

definition ap :: "('a \<Rightarrow> 'b) vres \<Rightarrow> 'a vres \<Rightarrow> 'b vres" where
  "ap f x = (case f of
       Inl e1 \<Rightarrow> (case x of Inl e2 \<Rightarrow> Inl (e1 @ e2) | Inr a \<Rightarrow> Inl e1)
     | Inr g \<Rightarrow> (case x of Inl e2 \<Rightarrow> Inl e2 | Inr a \<Rightarrow> Inr (g a)))"

definition at_loc :: "loc_item \<Rightarrow> 'a vres \<Rightarrow> 'a vres" where
  "at_loc l r = (case r of Inl es \<Rightarrow> Inl (map (\<lambda>(p, k). (l # p, k)) es) | Inr a \<Rightarrow> Inr a)"

definition validate_int :: "pydantic \<Rightarrow> json \<Rightarrow> int vres" where
  "validate_int L j = (case j of
       JInt n \<Rightarrow> Inr n
     | _ \<Rightarrow> (case lax_int L j of Some n \<Rightarrow> Inr n | None \<Rightarrow> err ''int_type''))"

definition validate_int_range :: "pydantic \<Rightarrow> int \<Rightarrow> int \<Rightarrow> json \<Rightarrow> int vres" where
  "validate_int_range L ge le j = (case validate_int L j of
       Inl e \<Rightarrow> Inl e
     | Inr n \<Rightarrow> if \<not> n \<le> le then err ''less_than_equal''
               else if \<not> ge \<le> n then err ''greater_than_equal''
               else Inr n)"

definition validate_str :: "json \<Rightarrow> string vres" where
  "validate_str j = (case j of JStr s \<Rightarrow> Inr s | _ \<Rightarrow> err ''string_type'')"

definition validate_str_min :: "nat \<Rightarrow> json \<Rightarrow> string vres" where
  "validate_str_min min_length j = (case validate_str j of
       Inl e \<Rightarrow> Inl e
     | Inr s \<Rightarrow> if length s < min_length then err ''string_too_short'' else Inr s)"

definition validate_float :: "pydantic \<Rightarrow> json \<Rightarrow> pyfloat vres" where
  "validate_float L j = (case j of
       JFloat f \<Rightarrow> Inr f
     | JInt n \<Rightarrow> Inr (Finite (of_int n))
     | _ \<Rightarrow> (case lax_float L j of Some f \<Rightarrow> Inr f | None \<Rightarrow> err ''float_type''))"

text \<open>Comparison of a float with a finite bound; every comparison with NaN is false.\<close>

fun float_le :: "pyfloat \<Rightarrow> rat \<Rightarrow> bool" where
  "float_le (Finite r) b = (r \<le> b)"
| "float_le NegInf b = True"
| "float_le _ b = False"

fun float_ge :: "pyfloat \<Rightarrow> rat \<Rightarrow> bool" where
  "float_ge (Finite r) b = (b \<le> r)"
| "float_ge PosInf b = True"
| "float_ge _ b = False"

definition validate_float_range ::
  "pydantic \<Rightarrow> rat option \<Rightarrow> rat option \<Rightarrow> json \<Rightarrow> pyfloat vres" where
  "validate_float_range L ge le j = (case validate_float L j of
       Inl e \<Rightarrow> Inl e
     | Inr f \<Rightarrow>
         if (case le of Some b \<Rightarrow> \<not> float_le f b | None \<Rightarrow> False) then err ''less_than_equal''
         else if (case ge of Some b \<Rightarrow> \<not> float_ge f b | None \<Rightarrow> False)
           then err ''greater_than_equal''
         else Inr f)"

definition validate_date :: "pydantic \<Rightarrow> json \<Rightarrow> pydate vres" where
  "validate_date L j = (case to_date L j of Some d \<Rightarrow> Inr d | None \<Rightarrow> err ''date_type'')"

text \<open>\<^verbatim>\<open>Optional[T]\<close>: null is accepted as \<^verbatim>\<open>None\<close>, anything else goes to \<open>T\<close>.\<close>

definition validate_optional :: "(json \<Rightarrow> 'a vres) \<Rightarrow> json \<Rightarrow> 'a option vres" where
  "validate_optional v j = (case j of
       JNull \<Rightarrow> Inr None
     | _ \<Rightarrow> (case v j of Inl e \<Rightarrow> Inl e | Inr a \<Rightarrow> Inr (Some a)))"

text \<open>A list field: a JSON array, each item validated at its index.\<close>

fun validate_items :: "(json \<Rightarrow> 'a vres) \<Rightarrow> nat \<Rightarrow> json list \<Rightarrow> 'a list vres" where
  "validate_items v i [] = Inr []"
| "validate_items v i (x # xs) =
     ap (ap (Inr (#)) (at_loc (Idx i) (v x))) (validate_items v (Suc i) xs)"

definition validate_list :: "(json \<Rightarrow> 'a vres) \<Rightarrow> nat \<Rightarrow> json \<Rightarrow> 'a list vres" where
  "validate_list v min_length j = (case j of
       JArr xs \<Rightarrow> (case validate_items v 0 xs of
           Inl e \<Rightarrow> Inl e
         | Inr ys \<Rightarrow> if length ys < min_length then err ''too_short'' else Inr ys)
     | _ \<Rightarrow> err ''list_type'')"

text \<open>A field of a model: required, or with a default used when the key is absent.\<close>

definition required :: "(string \<times> json) list \<Rightarrow> string \<Rightarrow> (json \<Rightarrow> 'a vres) \<Rightarrow> 'a vres" where
  "required kvs k v = (case map_of kvs k of
       None \<Rightarrow> Inl [([Key k], ''missing'')]
     | Some j \<Rightarrow> at_loc (Key k) (v j))"

definition with_default ::
  "(string \<times> json) list \<Rightarrow> string \<Rightarrow> 'a \<Rightarrow> (json \<Rightarrow> 'a vres) \<Rightarrow> 'a vres" where
  "with_default kvs k d v = (case map_of kvs k of
       None \<Rightarrow> Inr d
     | Some j \<Rightarrow> at_loc (Key k) (v j))"

section \<open>The schema (schemas.py)\<close>

definition Department :: "string list" where
  "Department = [''Artificial Intelligence'', ''AI/ML'', ''Machine Learning'', ''Data Science'']"

record Employee =
  user_id :: int
  name :: string
  age :: "int option"
  email :: "string option"
  salary :: "pyfloat option"
  join_date :: "pydate option"
  department :: string
  performance_score :: "pyfloat option"
  location :: "string option"
  job_title :: "string option"

definition normalize_name :: "string \<Rightarrow> string" where
  "normalize_name v = py_title (py_join '' '' (py_split (py_strip v)))"

text \<open>
  \<^verbatim>\<open>name: str = Field(min_length=1)\<close> with the validator \<^verbatim>\<open>normalize_name\<close>,
  which is declared with \<^verbatim>\<open>field_validator\<close> in its default mode: it runs
  after the field's own validation, so the length is checked on the text as
  received and the normalized text is what the record stores.
\<close>

definition validate_name :: "json \<Rightarrow> string vres" where
  "validate_name j = (case validate_str_min 1 j of
       Inl e \<Rightarrow> Inl e
     | Inr s \<Rightarrow> Inr (normalize_name s))"

definition validate_department :: "json \<Rightarrow> string vres" where
  "validate_department j = (case j of
       JStr s \<Rightarrow> if s \<in> set Department then Inr s else err ''literal_error''
     | _ \<Rightarrow> err ''literal_error'')"

definition make_Employee ::
  "int \<Rightarrow> string \<Rightarrow> int option \<Rightarrow> string option \<Rightarrow> pyfloat option \<Rightarrow> pydate option \<Rightarrow>
   string \<Rightarrow> pyfloat option \<Rightarrow> string option \<Rightarrow> string option \<Rightarrow> Employee" where
  "make_Employee uid nm ag em sal jd dep ps lo jt =
     \<lparr>user_id = uid, name = nm, age = ag, email = em, salary = sal, join_date = jd,
      department = dep, performance_score = ps, location = lo, job_title = jt\<rparr>"

definition f_user_id :: "pydantic \<Rightarrow> (string \<times> json) list \<Rightarrow> int vres" where
  "f_user_id L kvs = required kvs ''user_id'' (validate_int L)"

definition f_name :: "(string \<times> json) list \<Rightarrow> string vres" where
  "f_name kvs = required kvs ''name'' validate_name"

definition f_age :: "pydantic \<Rightarrow> (string \<times> json) list \<Rightarrow> int option vres" where
  "f_age L kvs = with_default kvs ''age'' None (validate_optional (validate_int_range L 16 80))"

definition f_email :: "(string \<times> json) list \<Rightarrow> string option vres" where
  "f_email kvs = with_default kvs ''email'' None (validate_optional validate_str)"

definition f_salary :: "pydantic \<Rightarrow> (string \<times> json) list \<Rightarrow> pyfloat option vres" where
  "f_salary L kvs =
     with_default kvs ''salary'' None (validate_optional (validate_float_range L (Some 0) None))"

definition f_join_date :: "pydantic \<Rightarrow> (string \<times> json) list \<Rightarrow> pydate option vres" where
  "f_join_date L kvs = with_default kvs ''join_date'' None (validate_optional (validate_date L))"

definition f_department :: "(string \<times> json) list \<Rightarrow> string vres" where
  "f_department kvs = required kvs ''department'' validate_department"

definition f_performance_score :: "pydantic \<Rightarrow> (string \<times> json) list \<Rightarrow> pyfloat option vres" where
  "f_performance_score L kvs = with_default kvs ''performance_score'' None
     (validate_optional (validate_float_range L (Some 0) (Some 10)))"

definition f_location :: "(string \<times> json) list \<Rightarrow> string option vres" where
  "f_location kvs = with_default kvs ''location'' None (validate_optional validate_str)"

definition f_job_title :: "(string \<times> json) list \<Rightarrow> string option vres" where
  "f_job_title kvs = with_default kvs ''job_title'' None (validate_optional validate_str)"

definition validate_Employee :: "pydantic \<Rightarrow> json \<Rightarrow> Employee vres" where
  "validate_Employee L j = (case j of
       JObj kvs \<Rightarrow>
         ap (ap (ap (ap (ap (ap (ap (ap (ap (ap (Inr make_Employee)
           (f_user_id L kvs)) (f_name kvs)) (f_age L kvs)) (f_email kvs)) (f_salary L kvs))
           (f_join_date L kvs)) (f_department kvs)) (f_performance_score L kvs))
           (f_location kvs)) (f_job_title kvs)
     | _ \<Rightarrow> err ''model_type'')"

record RejectedRecord =
  raw_record :: string
  reasons :: "string list"

definition make_RejectedRecord :: "string \<Rightarrow> string list \<Rightarrow> RejectedRecord" where
  "make_RejectedRecord raw rs = \<lparr>raw_record = raw, reasons = rs\<rparr>"

definition validate_RejectedRecord :: "json \<Rightarrow> RejectedRecord vres" where
  "validate_RejectedRecord j = (case j of
       JObj kvs \<Rightarrow>
         ap (ap (Inr make_RejectedRecord)
           (required kvs ''raw_record'' (validate_str_min 1)))
           (required kvs ''reasons'' (validate_list validate_str 1))
     | _ \<Rightarrow> err ''model_type'')"

record ExtractedData =
  employees :: "Employee list"
  rejected :: "RejectedRecord list"

definition make_ExtractedData :: "Employee list \<Rightarrow> RejectedRecord list \<Rightarrow> ExtractedData" where
  "make_ExtractedData es rs = \<lparr>employees = es, rejected = rs\<rparr>"

definition validate_ExtractedData :: "pydantic \<Rightarrow> json \<Rightarrow> ExtractedData vres" where
  "validate_ExtractedData L j = (case j of
       JObj kvs \<Rightarrow>
         ap (ap (Inr make_ExtractedData)
           (with_default kvs ''employees'' [] (validate_list (validate_Employee L) 0)))
           (with_default kvs ''rejected'' [] (validate_list validate_RejectedRecord 0))
     | _ \<Rightarrow> err ''model_type'')"

text \<open>
  \<^verbatim>\<open>ExtractedData.model_validate_json\<close>: text that is not JSON is a
  \<^verbatim>\<open>ValidationError\<close> as well.
\<close>

definition model_validate_json :: "pydantic \<Rightarrow> string \<Rightarrow> ExtractedData vres" where
  "model_validate_json L txt = (case parse_json L txt of
       None \<Rightarrow> err ''json_invalid''
     | Some j \<Rightarrow> validate_ExtractedData L j)"

text \<open>\<^verbatim>\<open>model_dump\<close>: the model as nested dicts and lists, fields in declaration order.\<close>

definition dump_opt :: "('a \<Rightarrow> pyobj) \<Rightarrow> 'a option \<Rightarrow> pyobj" where
  "dump_opt f x = (case x of None \<Rightarrow> PNone | Some a \<Rightarrow> f a)"

definition dump_Employee :: "Employee \<Rightarrow> pyobj" where
  "dump_Employee e = PDict
     [(''user_id'', PInt (user_id e)),
      (''name'', PStr (name e)),
      (''age'', dump_opt PInt (age e)),
      (''email'', dump_opt PStr (email e)),
      (''salary'', dump_opt PFloat (salary e)),
      (''join_date'', dump_opt PDate (join_date e)),
      (''department'', PStr (department e)),
      (''performance_score'', dump_opt PFloat (performance_score e)),
      (''location'', dump_opt PStr (location e)),
      (''job_title'', dump_opt PStr (job_title e))]"

definition dump_RejectedRecord :: "RejectedRecord \<Rightarrow> pyobj" where
  "dump_RejectedRecord r = PDict
     [(''raw_record'', PStr (raw_record r)),
      (''reasons'', PList (map PStr (reasons r)))]"

definition model_dump :: "ExtractedData \<Rightarrow> pyobj" where
  "model_dump d = PDict
     [(''employees'', PList (map dump_Employee (employees d))),
      (''rejected'', PList (map dump_RejectedRecord (rejected d)))]"

section \<open>The retry controller (graph.py)\<close>

text \<open>
  An entry of the audit log is one of four dict shapes: the output of an
  extract step, a passed validation, a failed validation with its error text,
  the output of a correct step. Each carries the attempt number.
\<close>

datatype log_entry =
    ExtractEntry int string
  | ValidatePass int
  | ValidateFail int string
  | CorrectEntry int string

fun step :: "log_entry \<Rightarrow> string" where
  "step (ExtractEntry a out) = ''extract''"
| "step (ValidatePass a) = ''validate''"
| "step (ValidateFail a e) = ''validate''"
| "step (CorrectEntry a out) = ''correct''"

fun status :: "log_entry \<Rightarrow> string option" where
  "status (ValidatePass a) = Some ''pass''"
| "status (ValidateFail a e) = Some ''fail''"
| "status _ = None"

fun entry_attempt :: "log_entry \<Rightarrow> int" where
  "entry_attempt (ExtractEntry a out) = a"
| "entry_attempt (ValidatePass a) = a"
| "entry_attempt (ValidateFail a e) = a"
| "entry_attempt (CorrectEntry a out) = a"

record AgentState =
  raw_text :: string
  attempt :: int
  max_attempts :: int
  last_json_text :: string
  validation_error :: string
  result :: "pyobj option"
  run_log :: "log_entry list"

text \<open>
  The text generator is outside the program. A call sends one of two payloads
  and either returns the output text or raises (after the client's own
  transport retries); nothing makes two calls with the same payload agree, so
  the generator is a function of the number of calls made before in the run as
  well. The API key and the model name only select the generator.
\<close>

datatype request =
    ExtractRequest string
  | CorrectRequest string string

type_synonym 'e generator = "nat \<Rightarrow> request \<Rightarrow> 'e + string"

text \<open>
  A node that calls the generator either returns the updated state or raises.
  \<open>Raised e s\<close> keeps the state as the node left it when the exception went
  up; \<^verbatim>\<open>run_agent\<close> hands its caller the exception only.
\<close>

datatype 'e outcome = Raised 'e AgentState | Returned AgentState

definition llm_extract :: "'e generator \<Rightarrow> nat \<Rightarrow> AgentState \<Rightarrow> 'e outcome" where
  "llm_extract G c state = (case G c (ExtractRequest (raw_text state)) of
       Inl e \<Rightarrow> Raised e state
     | Inr output_text \<Rightarrow>
         (let out = py_strip output_text in
          Returned (state\<lparr>last_json_text := out,
            run_log := run_log state @ [ExtractEntry (attempt state) (take 2000 out)]\<rparr>)))"

definition validate :: "pydantic \<Rightarrow> AgentState \<Rightarrow> AgentState" where
  "validate L state = (case model_validate_json L (last_json_text state) of
       Inr data \<Rightarrow>
         state\<lparr>result := Some (json_safe (model_dump data)),
           validation_error := [],
           run_log := run_log state @ [ValidatePass (attempt state)]\<rparr>
     | Inl e \<Rightarrow>
         (let msg = error_str L e in
          state\<lparr>result := None,
            validation_error := msg,
            run_log := run_log state @ [ValidateFail (attempt state) (take 2000 msg)]\<rparr>))"

definition llm_correct :: "'e generator \<Rightarrow> nat \<Rightarrow> AgentState \<Rightarrow> 'e outcome" where
  "llm_correct G c state =
     (case G c (CorrectRequest (last_json_text state) (validation_error state)) of
       Inl e \<Rightarrow> Raised e state
     | Inr output_text \<Rightarrow>
         (let out = py_strip output_text in
          Returned (state\<lparr>last_json_text := out,
            run_log := run_log state @ [CorrectEntry (attempt state) (take 2000 out)]\<rparr>)))"

definition should_retry :: "AgentState \<Rightarrow> string" where
  "should_retry state =
     (if result state \<noteq> None then ''finalize''
      else if attempt state \<ge> max_attempts state then ''finalize''
      else ''retry'')"

definition inc_attempt :: "AgentState \<Rightarrow> AgentState" where
  "inc_attempt state = state\<lparr>attempt := attempt state + 1\<rparr>"

lemma validate_counters [simp]:
  "attempt (validate L s) = attempt s" "max_attempts (validate L s) = max_attempts s"
  by (simp_all add: validate_def Let_def split: sum.splits)

lemma llm_correct_counters:
  "llm_correct G c s = Returned s' \<Longrightarrow> attempt s' = attempt s \<and> max_attempts s' = max_attempts s"
  by (auto simp: llm_correct_def Let_def split: sum.splits)

lemma should_retry_budget: "should_retry s = ''retry'' \<Longrightarrow> attempt s < max_attempts s"
  by (simp add: should_retry_def split: if_splits)

text \<open>
  \<^verbatim>\<open>build_graph\<close>: the entry point is extract; extract goes to validate;
  after validate the conditional edge sends \<^verbatim>\<open>"retry"\<close> to correct and
  \<^verbatim>\<open>"finalize"\<close> to the end; correct goes to inc_attempt, which goes back to
  validate. \<open>graph_loop\<close> is the graph from the validate node on; its
  numeric argument counts the generator calls made so far. The graph library
  also stops a run whose node executions pass its recursion limit, a default
  that this program does not set; the limit is not modelled (a run with a
  budget of 3 executes eight nodes).
\<close>

function graph_loop :: "pydantic \<Rightarrow> 'e generator \<Rightarrow> nat \<Rightarrow> AgentState \<Rightarrow> 'e outcome" where
  "graph_loop L G c state =
     (let validated = validate L state in
      if should_retry validated = ''retry'' then
        (case llm_correct G c validated of
           Raised e s \<Rightarrow> Raised e s
         | Returned corrected \<Rightarrow> graph_loop L G (Suc c) (inc_attempt corrected))
      else Returned validated)"
  by pat_completeness auto
termination
proof (relation "measure (\<lambda>(L, G, c, s). nat (max_attempts s - attempt s))")
  show "wf (measure (\<lambda>(L, G, c, s). nat (max_attempts s - attempt s)))" by simp
next
  fix L :: pydantic and G :: "'e generator" and c :: nat and state validated corrected :: AgentState
  assume v: "validated = validate L state"
    and r: "should_retry validated = ''retry''"
    and k: "llm_correct G c validated = Returned corrected"
  from should_retry_budget[OF r] v have "attempt state < max_attempts state" by simp
  moreover from llm_correct_counters[OF k] v
  have "attempt corrected = attempt state" "max_attempts corrected = max_attempts state"
    by simp_all
  ultimately show "((L, G, Suc c, inc_attempt corrected), (L, G, c, state))
      \<in> measure (\<lambda>(L, G, c, s). nat (max_attempts s - attempt s))"
    by (simp add: inc_attempt_def)
qed

declare graph_loop.simps [simp del]

definition graph_invoke :: "pydantic \<Rightarrow> 'e generator \<Rightarrow> AgentState \<Rightarrow> 'e outcome" where
  "graph_invoke L G init = (case llm_extract G 0 init of
       Raised e s \<Rightarrow> Raised e s
     | Returned extracted \<Rightarrow> graph_loop L G 1 extracted)"

definition run_agent :: "pydantic \<Rightarrow> 'e generator \<Rightarrow> string \<Rightarrow> int \<Rightarrow> 'e outcome" where
  "run_agent L G raw max_att =
     graph_invoke L G
       \<lparr>raw_text = raw, attempt = 1, max_attempts = max_att, last_json_text = [],
        validation_error = [], result = None, run_log = []\<rparr>"

text \<open>What the caller of \<^verbatim>\<open>run_agent\<close> gets: the exception, or the final state.\<close>

fun caller_gets :: "'e outcome \<Rightarrow> 'e + AgentState" where
  "caller_gets (Raised e s) = Inl e"
| "caller_gets (Returned s) = Inr s"

text \<open>The state an outcome carries.\<close>

fun final_state :: "'e outcome \<Rightarrow> AgentState" where
  "final_state (Raised e s) = s"
| "final_state (Returned s) = s"

text \<open>The number of log entries of one step.\<close>

definition count_step :: "string \<Rightarrow> log_entry list \<Rightarrow> nat" where
  "count_step k lg = length (filter (\<lambda>x. step x = k) lg)"

section \<open>The offline runner (offline_runner.py)\<close>

text \<open>The slice \<^verbatim>\<open>xs[:n]\<close>; a negative \<open>n\<close> counts from the end of the list.\<close>

definition py_slice_to :: "'a list \<Rightarrow> int \<Rightarrow> 'a list" where
  "py_slice_to xs n = (if 0 \<le> n then take (nat n) xs else take (length xs - nat (- n)) xs)"

record OfflineRun =
  o_result :: "pyobj option"
  o_log :: "log_entry list"
  o_last_json_text :: string

text \<open>
  The body of the \<^verbatim>\<open>for\<close> loop, over the candidates still to come, with
  the local variables \<^verbatim>\<open>log\<close>, \<^verbatim>\<open>last\<close> and \<^verbatim>\<open>attempt\<close>. The log of
  the offline runner keeps outputs and error texts whole.
\<close>

fun offline_loop ::
  "pydantic \<Rightarrow> string list \<Rightarrow> log_entry list \<Rightarrow> string \<Rightarrow> int \<Rightarrow> OfflineRun" where
  "offline_loop L [] lg last_seen att =
     \<lparr>o_result = None, o_log = lg, o_last_json_text = last_seen\<rparr>"
| "offline_loop L (out # outs) lg last_seen att =
     (case model_validate_json L out of
        Inr data \<Rightarrow>
          \<lparr>o_result = Some (model_dump data),
           o_log = lg @ [ExtractEntry att out] @ [ValidatePass att],
           o_last_json_text = out\<rparr>
      | Inl e \<Rightarrow>
          offline_loop L outs
            (lg @ [ExtractEntry att out] @ [ValidateFail att (error_str L e)]) out (att + 1))"

definition run_offline_agent :: "pydantic \<Rightarrow> string \<Rightarrow> string list \<Rightarrow> int \<Rightarrow> OfflineRun" where
  "run_offline_agent L raw candidate_json_outputs max_att =
     offline_loop L (py_slice_to candidate_json_outputs max_att) [] [] 1"

text \<open>
  The replay in the words of the specification, to compare the loop with: the
  candidates are taken in order; those before the first one that validates are
  each logged as an extract entry and a failed validate entry, numbered from 1;
  the first one that validates is logged as an extract and a passed validate
  entry and gives the result; when none validates the result is \<^verbatim>\<open>None\<close>
  and the last text seen is the last candidate.
\<close>

definition rejects :: "pydantic \<Rightarrow> string \<Rightarrow> bool" where
  "rejects L out = isl (model_validate_json L out)"

fun failed_entries :: "pydantic \<Rightarrow> int \<Rightarrow> string list \<Rightarrow> log_entry list" where
  "failed_entries L att [] = []"
| "failed_entries L att (out # outs) =
     ExtractEntry att out
     # ValidateFail att (error_str L (projl (model_validate_json L out)))
     # failed_entries L (att + 1) outs"

definition replay :: "pydantic \<Rightarrow> string list \<Rightarrow> OfflineRun" where
  "replay L outs =
     (let failed = takeWhile (rejects L) outs in
      case dropWhile (rejects L) outs of
        [] \<Rightarrow>
          \<lparr>o_result = None, o_log = failed_entries L 1 failed,
           o_last_json_text = (if outs = [] then [] else last outs)\<rparr>
      | out # rest \<Rightarrow>
          \<lparr>o_result = Some (model_dump (projr (model_validate_json L out))),
           o_log = failed_entries L 1 failed
             @ [ExtractEntry (1 + int (length failed)) out,
                ValidatePass (1 + int (length failed))],
           o_last_json_text = out\<rparr>)"

section \<open>The documents of the repository's tests\<close>

text \<open>
  The two candidate outputs of test_offline_runner.py, as the texts
  \<^verbatim>\<open>json.dumps\<close> writes and as the documents they parse to, and a library
  instance for concrete runs: its parser knows these two texts and rejects every
  other, and its only lax conversion reads the string 101 as an integer.
\<close>

definition bad_text :: string where
  \<open>bad_text = ''{"employees": [{"user_id": "101", "name": "", "department": "ai"}]}''\<close>

definition bad_doc :: json where
  "bad_doc = JObj [(''employees'', JArr [JObj
     [(''user_id'', JStr ''101''), (''name'', JStr []), (''department'', JStr ''ai'')]])]"

definition good_text :: string where
  \<open>good_text = ''{"employees": [{"user_id": 101, "name": "Michael Chen", "age": 29, "email": null, "salary": 120000, "join_date": null, "department": "Artificial Intelligence", "performance_score": null, "location": null, "job_title": null}]}''\<close>

definition good_employee :: "(string \<times> json) list" where
  "good_employee =
     [(''user_id'', JInt 101), (''name'', JStr ''Michael Chen''), (''age'', JInt 29),
      (''email'', JNull), (''salary'', JInt 120000), (''join_date'', JNull),
      (''department'', JStr ''Artificial Intelligence''), (''performance_score'', JNull),
      (''location'', JNull), (''job_title'', JNull)]"

definition good_doc :: json where
  "good_doc = JObj [(''employees'', JArr [JObj good_employee])]"

definition test_pydantic :: pydantic where
  "test_pydantic =
     \<lparr>parse_json = (\<lambda>t. if t = good_text then Some good_doc
                         else if t = bad_text then Some bad_doc else None),
      lax_int = (\<lambda>j. if j = JStr ''101'' then Some 101 else None),
      lax_float = (\<lambda>j. None),
      to_date = (\<lambda>j. None),
      error_str = (\<lambda>es. ''validation error'')\<rparr>"

text \<open>
  The employee of tests_schema.py, reduced to its required fields, with a given
  value under \<^verbatim>\<open>age\<close> and with no such key; and an employee whose name is
  three spaces.
\<close>

definition employee_with_age :: "json \<Rightarrow> json" where
  "employee_with_age j = JObj
     [(''user_id'', JInt 101), (''name'', JStr ''Michael Chen''), (''age'', j),
      (''department'', JStr ''Artificial Intelligence'')]"

definition employee_without_age :: json where
  "employee_without_age = JObj
     [(''user_id'', JInt 101), (''name'', JStr ''Michael Chen''),
      (''department'', JStr ''Artificial Intelligence'')]"

definition employee_blank_name :: json where
  "employee_blank_name = JObj
     [(''user_id'', JInt 101), (''name'', JStr ''   ''),
      (''department'', JStr ''Artificial Intelligence'')]"


text \<open>
  Three generators for concrete runs: one that answers every call with the
  invalid test document, one whose first call answers so and whose later calls
  raise, and one whose every call raises. The exception is its message.
\<close>

definition stubborn_generator :: "string generator" where
  "stubborn_generator c req = Inr bad_text"

definition failing_generator :: "string generator" where
  "failing_generator c req = (if c = 0 then Inr bad_text else Inl ''timeout'')"

definition down_generator :: "string generator" where
  "down_generator c req = Inl ''timeout''"


section \<open>Properties of the Safe-JSON Normalizer\<close>

lemma json_safe_fixed: "nonfinite_free x \<Longrightarrow> json_safe x = x"
proof (induction x)
  case (PDict kvs)
  have "map (\<lambda>(k, v). (k, json_safe v)) kvs = map (\<lambda>p. p) kvs"
  proof (rule map_cong[OF refl])
    fix p assume p: "p \<in> set kvs"
    obtain k v where kv: "p = (k, v)" by (cases p)
    from PDict.prems p kv have nf: "nonfinite_free v" by (auto simp: list_all_iff)
    have "v \<in> Basic_BNFs.snds p" using kv by simp
    from PDict.IH[OF p this nf] show "(case p of (k, v) \<Rightarrow> (k, json_safe v)) = p"
      using kv by simp
  qed
  then show ?case by simp
next
  case (PList xs)
  have "map json_safe xs = map (\<lambda>x. x) xs"
    by (rule map_cong[OF refl]) (use PList in \<open>auto simp: list_all_iff\<close>)
  then show ?case by simp
qed auto

lemma json_safe_clean: "nonfinite_free (json_safe x)"
proof (induction x)
  case (PDict kvs)
  then show ?case by (fastforce simp: list_all_iff)
next
  case (PList xs)
  then show ?case by (auto simp: list_all_iff)
qed auto

text \<open>
  Claim C8. The normalizer is idempotent: for every structure \<open>x\<close>,
  \<^verbatim>\<open>_json_safe(_json_safe(x))\<close> is \<^verbatim>\<open>_json_safe(x)\<close>.
\<close>

theorem json_safe_idempotent: "json_safe (json_safe x) = json_safe x"
  by (rule json_safe_fixed) (rule json_safe_clean)

text \<open>
  Claim C9. For a structure of dicts, lists and scalars, the normalizer turns a
  NaN or infinite float into \<^verbatim>\<open>None\<close> and keeps a finite one, goes into the
  values of a dict (keys and order kept) and into the items of a list, and
  returns every other scalar as it is; its result holds no non-finite float,
  and a structure that holds none comes back unchanged.
\<close>

theorem json_safe_replaces_nonfinite:
  "json_safe (PFloat f) = (if math_isnan f \<or> math_isinf f then PNone else PFloat f)
   \<and> json_safe (PFloat NaN) = PNone
   \<and> json_safe (PFloat PosInf) = PNone
   \<and> json_safe (PFloat NegInf) = PNone
   \<and> json_safe (PFloat (Finite r)) = PFloat (Finite r)
   \<and> json_safe (PDict kvs) = PDict (zip (map fst kvs) (map (json_safe \<circ> snd) kvs))
   \<and> json_safe (PList xs) = PList (map json_safe xs)
   \<and> json_safe PNone = PNone
   \<and> json_safe (PBool b) = PBool b
   \<and> json_safe (PInt i) = PInt i
   \<and> json_safe (PStr s) = PStr s
   \<and> json_safe (PDate d) = PDate d
   \<and> nonfinite_free (json_safe x)
   \<and> (nonfinite_free x \<longrightarrow> json_safe x = x)"
proof -
  have "map (\<lambda>(k, v). (k, json_safe v)) kvs = zip (map fst kvs) (map (json_safe \<circ> snd) kvs)"
    by (induction kvs) auto
  then show ?thesis
    by (simp add: json_safe_clean json_safe_fixed)
qed

theorem json_safe_replaces_nonfinite_witness:
  "json_safe (PDict [(''salary'', PFloat PosInf),
       (''scores'', PList [PFloat NaN, PFloat (Finite (19 / 2)), PFloat NegInf, PInt 3]),
       (''name'', PStr ''Michael Chen'')])
     = PDict [(''salary'', PNone),
       (''scores'', PList [PNone, PFloat (Finite (19 / 2)), PNone, PInt 3]),
       (''name'', PStr ''Michael Chen'')]
   \<and> json_safe (PList [PFloat (Finite (19 / 2)), PStr ''a'']) =
       PList [PFloat (Finite (19 / 2)), PStr ''a'']"
proof -
  have n: "nonfinite_free (PList [PFloat (Finite (19 / 2)), PStr ''a''])" by simp
  from json_safe_replaces_nonfinite[of _ _ _ _ _ _ _ _ "PList [PFloat (Finite (19 / 2)), PStr ''a'']"] n
  have 1: "json_safe (PList [PFloat (Finite (19 / 2)), PStr ''a'']) =
       PList [PFloat (Finite (19 / 2)), PStr ''a'']" by blast
  have 2: "json_safe (PDict [(''salary'', PFloat PosInf),
       (''scores'', PList [PFloat NaN, PFloat (Finite (19 / 2)), PFloat NegInf, PInt 3]),
       (''name'', PStr ''Michael Chen'')])
     = PDict [(''salary'', PNone),
       (''scores'', PList [PNone, PFloat (Finite (19 / 2)), PNone, PInt 3]),
       (''name'', PStr ''Michael Chen'')]"
    using json_safe_replaces_nonfinite[of NaN 0 "[]" "[]" True 0 "[]" "Date 0 0 0" PNone]
    by simp
  from 1 2 show ?thesis by simp
qed

section \<open>Properties of the validator\<close>

lemma isl_ap: "isl (ap f x) = (isl f \<or> isl x)"
  by (auto simp: ap_def split: sum.splits)

lemma ap_Inr_iff: "(ap f x = Inr y) = (\<exists>g a. f = Inr g \<and> x = Inr a \<and> y = g a)"
  by (auto simp: ap_def split: sum.splits)

lemma isl_at_loc: "isl (at_loc l r) = isl r"
  by (simp add: at_loc_def split: sum.splits)







lemma validate_failed:
  "model_validate_json L (last_json_text s) = Inl errs \<Longrightarrow>
   validate L s = s\<lparr>result := None, validation_error := error_str L errs,
     run_log := run_log s @ [ValidateFail (attempt s) (take 2000 (error_str L errs))]\<rparr>"
  by (simp add: validate_def Let_def)

lemma validate_passed:
  "model_validate_json L (last_json_text s) = Inr d \<Longrightarrow>
   validate L s = s\<lparr>result := Some (json_safe (model_dump d)), validation_error := [],
     run_log := run_log s @ [ValidatePass (attempt s)]\<rparr>"
  by (simp add: validate_def)




section \<open>Properties of the employee schema\<close>

lemma isl_validate_Employee:
  "isl (validate_Employee L (JObj kvs)) =
     (isl (f_user_id L kvs) \<or> isl (f_name kvs) \<or> isl (f_age L kvs) \<or> isl (f_email kvs) \<or>
      isl (f_salary L kvs) \<or> isl (f_join_date L kvs) \<or> isl (f_department kvs) \<or>
      isl (f_performance_score L kvs) \<or> isl (f_location kvs) \<or> isl (f_job_title kvs))"
  by (simp add: validate_Employee_def isl_ap)

lemma validate_Employee_age:
  "validate_Employee L (JObj kvs) = Inr e \<Longrightarrow> f_age L kvs = Inr (age e)"
  by (auto simp: validate_Employee_def ap_Inr_iff make_Employee_def)

lemma f_age_int:
  "map_of kvs ''age'' = Some (JInt n) \<Longrightarrow>
   f_age L kvs = (if 80 < n then Inl [([Key ''age''], ''less_than_equal'')]
                  else if n < 16 then Inl [([Key ''age''], ''greater_than_equal'')]
                  else Inr (Some n))"
  by (simp add: f_age_def with_default_def validate_optional_def validate_int_range_def
      validate_int_def at_loc_def err_def)

lemma f_age_null: "map_of kvs ''age'' = Some JNull \<Longrightarrow> f_age L kvs = Inr None"
  by (simp add: f_age_def with_default_def validate_optional_def at_loc_def)

lemma f_age_absent: "map_of kvs ''age'' = None \<Longrightarrow> f_age L kvs = Inr None"
  by (simp add: f_age_def with_default_def)

lemma other_fields_ok:
  "\<not> isl (f_user_id L [(''user_id'', JInt 101), (''name'', JStr ''Michael Chen''), (''age'', j),
      (''department'', JStr ''Artificial Intelligence'')])"
  "\<not> isl (f_name [(''user_id'', JInt 101), (''name'', JStr ''Michael Chen''), (''age'', j),
      (''department'', JStr ''Artificial Intelligence'')])"
  "\<not> isl (f_department [(''user_id'', JInt 101), (''name'', JStr ''Michael Chen''), (''age'', j),
      (''department'', JStr ''Artificial Intelligence'')])"
    apply (simp add: f_user_id_def required_def at_loc_def validate_int_def)
   apply (simp add: f_name_def required_def isl_at_loc validate_name_def validate_str_min_def validate_str_def)
  apply (simp add: f_department_def required_def isl_at_loc validate_department_def Department_def)
  done

lemma employee_with_age_isl:
  "isl (validate_Employee L (employee_with_age j)) =
   isl (f_age L [(''user_id'', JInt 101), (''name'', JStr ''Michael Chen''), (''age'', j),
      (''department'', JStr ''Artificial Intelligence'')])"
  unfolding employee_with_age_def isl_validate_Employee
  by (simp add: other_fields_ok)
    (simp add: f_email_def f_salary_def f_join_date_def f_performance_score_def f_location_def
      f_job_title_def with_default_def)


lemma f_age_present:
  assumes "map_of kvs ''age'' = Some j" "j \<noteq> JNull"
  shows "f_age L kvs = (case validate_int L j of
       Inl e \<Rightarrow> Inl (map (\<lambda>(p, k). (Key ''age'' # p, k)) e)
     | Inr k \<Rightarrow> if 80 < k then Inl [([Key ''age''], ''less_than_equal'')]
               else if k < 16 then Inl [([Key ''age''], ''greater_than_equal'')]
               else Inr (Some k))"
  using assms
  by (cases j; cases "validate_int L j")
    (simp_all add: f_age_def with_default_def validate_optional_def validate_int_range_def
      at_loc_def err_def)

lemma f_age_accepted_range:
  assumes "f_age L kvs = Inr (Some k)"
  shows "16 \<le> k \<and> k \<le> 80"
proof (cases "map_of kvs ''age''")
  case None
  with assms show ?thesis by (simp add: f_age_absent)
next
  case (Some j)
  show ?thesis
  proof (cases "j = JNull")
    case True
    with Some assms show ?thesis by (simp add: f_age_null)
  next
    case False
    from assms show ?thesis
      unfolding f_age_present[OF Some False]
      by (cases "validate_int L j") (auto split: if_splits)
  qed
qed

lemma f_age_converted:
  assumes "map_of kvs ''age'' = Some j" "j \<noteq> JNull" "validate_int L j = Inr k"
  shows "(f_age L kvs = Inr (Some k)) = (16 \<le> k \<and> k \<le> 80)"
    and "isl (f_age L kvs) = (\<not> (16 \<le> k \<and> k \<le> 80))"
  using assms(3) unfolding f_age_present[OF assms(1,2)] by auto

lemma f_age_not_integer:
  assumes "map_of kvs ''age'' = Some j" "j \<noteq> JNull" "isl (validate_int L j)"
  shows "isl (f_age L kvs)"
  using assms(3) unfolding f_age_present[OF assms(1,2)]
  by (cases "validate_int L j") auto

text \<open>
  Claim C7. An age is accepted exactly when it is an integer in 16..80: an age
  given as a JSON integer passes exactly in that range, and so does an age
  given as any other token that the library reads as an integer; a token it
  reads as no integer is refused; whatever the token, an age that was accepted
  lies in 16..80. Null and a missing key are accepted as \<^verbatim>\<open>None\<close>. A
  refused age refuses the employee, an accepted employee carries the accepted
  age, and for the employee of the tests 16 and 80 pass while 15 and 81 fail.
\<close>

theorem age_accepted_iff_16_to_80:
  "(map_of kvs ''age'' = Some (JInt n) \<longrightarrow>
      (f_age L kvs = Inr (Some n)) = (16 \<le> n \<and> n \<le> 80) \<and>
      isl (f_age L kvs) = (\<not> (16 \<le> n \<and> n \<le> 80)))
   \<and> (map_of kvs ''age'' = Some JNull \<longrightarrow> f_age L kvs = Inr None)
   \<and> (map_of kvs ''age'' = None \<longrightarrow> f_age L kvs = Inr None)
   \<and> (isl (f_age L kvs) \<longrightarrow> isl (validate_Employee L (JObj kvs)))
   \<and> (\<forall>e. validate_Employee L (JObj kvs) = Inr e \<longrightarrow> f_age L kvs = Inr (age e))
   \<and> isl (validate_Employee L (employee_with_age (JInt n))) = (\<not> (16 \<le> n \<and> n \<le> 80))
   \<and> \<not> isl (validate_Employee L (employee_with_age (JInt 16)))
   \<and> \<not> isl (validate_Employee L (employee_with_age (JInt 80)))
   \<and> isl (validate_Employee L (employee_with_age (JInt 15)))
   \<and> isl (validate_Employee L (employee_with_age (JInt 81)))
   \<and> \<not> isl (validate_Employee L (employee_with_age JNull))
   \<and> \<not> isl (validate_Employee L employee_without_age)
   \<and> (\<forall>k. f_age L kvs = Inr (Some k) \<longrightarrow> 16 \<le> k \<and> k \<le> 80)
   \<and> (\<forall>j k. map_of kvs ''age'' = Some j \<and> j \<noteq> JNull \<and> validate_int L j = Inr k \<longrightarrow>
        (f_age L kvs = Inr (Some k)) = (16 \<le> k \<and> k \<le> 80) \<and>
        isl (f_age L kvs) = (\<not> (16 \<le> k \<and> k \<le> 80)))
   \<and> (\<forall>j. map_of kvs ''age'' = Some j \<and> j \<noteq> JNull \<and> isl (validate_int L j) \<longrightarrow>
        isl (f_age L kvs))
   \<and> (\<forall>e k. validate_Employee L (JObj kvs) = Inr e \<and> age e = Some k \<longrightarrow>
        16 \<le> k \<and> k \<le> 80)
   \<and> (\<forall>j k. j \<noteq> JNull \<and> validate_int L j = Inr k \<longrightarrow>
        isl (validate_Employee L (employee_with_age j)) = (\<not> (16 \<le> k \<and> k \<le> 80)))"
proof -
  have a: "map_of kvs ''age'' = Some (JInt n) \<longrightarrow>
      (f_age L kvs = Inr (Some n)) = (16 \<le> n \<and> n \<le> 80) \<and>
      isl (f_age L kvs) = (\<not> (16 \<le> n \<and> n \<le> 80))"
    by (auto simp: f_age_int)
  have b: "map_of kvs ''age'' = Some JNull \<longrightarrow> f_age L kvs = Inr None"
    by (simp add: f_age_null)
  have c: "map_of kvs ''age'' = None \<longrightarrow> f_age L kvs = Inr None"
    by (simp add: f_age_absent)
  have d: "isl (f_age L kvs) \<longrightarrow> isl (validate_Employee L (JObj kvs))"
    by (simp add: isl_validate_Employee)
  have e: "\<forall>e. validate_Employee L (JObj kvs) = Inr e \<longrightarrow> f_age L kvs = Inr (age e)"
    by (simp add: validate_Employee_age)
  have f: "isl (validate_Employee L (employee_with_age (JInt m))) = (\<not> (16 \<le> m \<and> m \<le> 80))" for m
    by (auto simp: employee_with_age_isl f_age_int)
  have g: "\<not> isl (validate_Employee L (employee_with_age JNull))"
    by (simp add: employee_with_age_isl f_age_null)
  have h: "\<not> isl (validate_Employee L employee_without_age)"
    unfolding employee_without_age_def isl_validate_Employee
    by (simp add: f_user_id_def f_name_def f_department_def required_def isl_at_loc
        validate_int_def validate_name_def validate_str_min_def validate_str_def
        validate_department_def Department_def f_age_def
        f_email_def f_salary_def f_join_date_def f_performance_score_def f_location_def
        f_job_title_def with_default_def)
  have i: "\<forall>k. f_age L kvs = Inr (Some k) \<longrightarrow> 16 \<le> k \<and> k \<le> 80"
    using f_age_accepted_range by blast
  have j: "\<forall>j k. map_of kvs ''age'' = Some j \<and> j \<noteq> JNull \<and> validate_int L j = Inr k \<longrightarrow>
        (f_age L kvs = Inr (Some k)) = (16 \<le> k \<and> k \<le> 80) \<and>
        isl (f_age L kvs) = (\<not> (16 \<le> k \<and> k \<le> 80))"
    using f_age_converted by blast
  have k: "\<forall>j. map_of kvs ''age'' = Some j \<and> j \<noteq> JNull \<and> isl (validate_int L j) \<longrightarrow>
        isl (f_age L kvs)"
    using f_age_not_integer by blast
  have l: "\<forall>e k. validate_Employee L (JObj kvs) = Inr e \<and> age e = Some k \<longrightarrow>
        16 \<le> k \<and> k \<le> 80"
  proof (intro allI impI)
    fix e k assume "validate_Employee L (JObj kvs) = Inr e \<and> age e = Some k"
    with validate_Employee_age[of L kvs e] have "f_age L kvs = Inr (Some k)" by simp
    then show "16 \<le> k \<and> k \<le> 80" by (rule f_age_accepted_range)
  qed
  have m: "\<forall>j k. j \<noteq> JNull \<and> validate_int L j = Inr k \<longrightarrow>
        isl (validate_Employee L (employee_with_age j)) = (\<not> (16 \<le> k \<and> k \<le> 80))"
  proof (intro allI impI)
    fix j k assume h: "j \<noteq> JNull \<and> validate_int L j = Inr k"
    have "map_of [(''user_id'', JInt 101), (''name'', JStr ''Michael Chen''), (''age'', j),
      (''department'', JStr ''Artificial Intelligence'')] ''age'' = Some j" by simp
    from f_age_converted(2)[OF this] h
    show "isl (validate_Employee L (employee_with_age j)) = (\<not> (16 \<le> k \<and> k \<le> 80))"
      by (simp add: employee_with_age_isl)
  qed
  have base: "(map_of kvs ''age'' = Some (JInt n) \<longrightarrow>
      (f_age L kvs = Inr (Some n)) = (16 \<le> n \<and> n \<le> 80) \<and>
      isl (f_age L kvs) = (\<not> (16 \<le> n \<and> n \<le> 80)))
   \<and> (map_of kvs ''age'' = Some JNull \<longrightarrow> f_age L kvs = Inr None)
   \<and> (map_of kvs ''age'' = None \<longrightarrow> f_age L kvs = Inr None)
   \<and> (isl (f_age L kvs) \<longrightarrow> isl (validate_Employee L (JObj kvs)))
   \<and> (\<forall>e. validate_Employee L (JObj kvs) = Inr e \<longrightarrow> f_age L kvs = Inr (age e))
   \<and> isl (validate_Employee L (employee_with_age (JInt n))) = (\<not> (16 \<le> n \<and> n \<le> 80))
   \<and> \<not> isl (validate_Employee L (employee_with_age (JInt 16)))
   \<and> \<not> isl (validate_Employee L (employee_with_age (JInt 80)))
   \<and> isl (validate_Employee L (employee_with_age (JInt 15)))
   \<and> isl (validate_Employee L (employee_with_age (JInt 81)))
   \<and> \<not> isl (validate_Employee L (employee_with_age JNull))
   \<and> \<not> isl (validate_Employee L employee_without_age)"
    using a b c d e f[of n] f[of 16] f[of 80] f[of 15] f[of 81] g h by simp
  from base i j k l m show ?thesis by blast
qed

theorem age_accepted_iff_16_to_80_witness:
  "f_age test_pydantic [(''age'', JInt 16)] = Inr (Some 16) \<and>
   f_age test_pydantic [(''age'', JInt 80)] = Inr (Some 80) \<and>
   isl (f_age test_pydantic [(''age'', JInt 15)]) \<and>
   isl (validate_Employee test_pydantic (JObj [(''age'', JInt 81)])) \<and>
   f_age test_pydantic [(''age'', JNull)] = Inr None \<and>
   f_age test_pydantic [] = Inr None \<and>
   (\<exists>e. validate_Employee test_pydantic (employee_with_age (JInt 16)) = Inr e \<and> age e = Some 16) \<and>
   isl (f_age test_pydantic [(''age'', JStr ''101'')]) \<and>
   isl (validate_Employee test_pydantic (employee_with_age (JStr ''101''))) \<and>
   isl (f_age test_pydantic [(''age'', JStr ''fifteen'')])"
proof -
  have 1: "f_age test_pydantic [(''age'', JInt 16)] = Inr (Some 16)"
    using age_accepted_iff_16_to_80[of "[(''age'', JInt 16)]" 16 test_pydantic] by simp
  have 2: "f_age test_pydantic [(''age'', JInt 80)] = Inr (Some 80)"
    using age_accepted_iff_16_to_80[of "[(''age'', JInt 80)]" 80 test_pydantic] by simp
  have 3: "isl (f_age test_pydantic [(''age'', JInt 15)])"
    using age_accepted_iff_16_to_80[of "[(''age'', JInt 15)]" 15 test_pydantic] by simp
  have 4: "isl (validate_Employee test_pydantic (JObj [(''age'', JInt 81)]))"
    using age_accepted_iff_16_to_80[of "[(''age'', JInt 81)]" 81 test_pydantic] by simp
  have 5: "f_age test_pydantic [(''age'', JNull)] = Inr None"
    using age_accepted_iff_16_to_80[of "[(''age'', JNull)]" 0 test_pydantic] by simp
  have 6: "f_age test_pydantic [] = Inr None"
    using age_accepted_iff_16_to_80[of "[]" 0 test_pydantic] by simp
  have "\<not> isl (validate_Employee test_pydantic (employee_with_age (JInt 16)))"
    using age_accepted_iff_16_to_80[of "[]" 0 test_pydantic] by simp
  then obtain e where e: "validate_Employee test_pydantic (employee_with_age (JInt 16)) = Inr e"
    by (cases "validate_Employee test_pydantic (employee_with_age (JInt 16))") auto
  have m: "map_of [(''user_id'', JInt 101), (''name'', JStr ''Michael Chen''), (''age'', JInt 16),
      (''department'', JStr ''Artificial Intelligence'')] ''age'' = Some (JInt 16)"
    by simp
  from e age_accepted_iff_16_to_80[of "[(''user_id'', JInt 101), (''name'', JStr ''Michael Chen''),
      (''age'', JInt 16), (''department'', JStr ''Artificial Intelligence'')]" 16 test_pydantic] m
  have "age e = Some 16"
    unfolding employee_with_age_def by auto
  have v: "validate_int test_pydantic (JStr ''101'') = Inr 101"
    by (simp add: validate_int_def test_pydantic_def)
  have 7: "isl (f_age test_pydantic [(''age'', JStr ''101'')])"
    using age_accepted_iff_16_to_80[of "[(''age'', JStr ''101'')]" 0 test_pydantic] v by auto
  have 8: "isl (validate_Employee test_pydantic (employee_with_age (JStr ''101'')))"
    using age_accepted_iff_16_to_80[of "[]" 0 test_pydantic] v by auto
  have w: "isl (validate_int test_pydantic (JStr ''fifteen''))"
    by (simp add: validate_int_def test_pydantic_def err_def)
  have 9: "isl (f_age test_pydantic [(''age'', JStr ''fifteen'')])"
    using age_accepted_iff_16_to_80[of "[(''age'', JStr ''fifteen'')]" 0 test_pydantic] w by auto
  from e \<open>age e = Some 16\<close> 1 2 3 4 5 6 7 8 9 show ?thesis by blast
qed

text \<open>
  Claim C6. \<^verbatim>\<open>normalize_name\<close> turns the name of the specification's example
  into Michael Chen. The length bound of the field is checked before the
  validator runs, so a name of three spaces passes it and the employee is
  accepted with the empty name; only the empty text itself is refused.
\<close>

theorem blank_name_is_accepted:
  "normalize_name ''  michael   chen '' = ''Michael Chen''
   \<and> validate_name (JStr ''   '') = Inr []
   \<and> isl (validate_name (JStr []))
   \<and> (\<exists>e. validate_Employee L employee_blank_name = Inr e \<and> name e = [])"
proof -
  have 1: "normalize_name ''  michael   chen '' = ''Michael Chen''" by code_simp
  have 2: "validate_name (JStr ''   '') = Inr []" by code_simp
  have 3: "isl (validate_name (JStr []))" by code_simp
  have 4: "validate_Employee L employee_blank_name =
     Inr \<lparr>user_id = 101, name = [], age = None, email = None, salary = None, join_date = None,
      department = ''Artificial Intelligence'', performance_score = None, location = None,
      job_title = None\<rparr>"
    by (simp add: employee_blank_name_def validate_Employee_def f_user_id_def f_name_def f_age_def
        f_email_def f_salary_def f_join_date_def f_department_def f_performance_score_def
        f_location_def f_job_title_def required_def with_default_def at_loc_def ap_def
        validate_int_def 2 validate_department_def Department_def make_Employee_def)
  from 1 2 3 4 show ?thesis by simp
qed


section \<open>Properties of the retry controller\<close>

lemma finalize_neq_retry: "''finalize'' \<noteq> ''retry''"
  by simp

lemma graph_loop_done:
  "max_attempts s \<le> attempt s \<Longrightarrow> graph_loop L G c s = Returned (validate L s)"
  by (subst graph_loop.simps) (simp add: should_retry_def Let_def)

lemma graph_loop_pass:
  "model_validate_json L (last_json_text s) = Inr d \<Longrightarrow>
   graph_loop L G c s = Returned (validate L s)"
  by (subst graph_loop.simps) (simp add: should_retry_def Let_def validate_passed)

lemma graph_loop_retry:
  "model_validate_json L (last_json_text s) = Inl errs \<Longrightarrow> attempt s < max_attempts s \<Longrightarrow>
   graph_loop L G c s = (case llm_correct G c (validate L s) of
       Raised e s' \<Rightarrow> Raised e s'
     | Returned corrected \<Rightarrow> graph_loop L G (Suc c) (inc_attempt corrected))"
  by (subst graph_loop.simps) (simp add: should_retry_def Let_def validate_failed)

lemma llm_extract_ok:
  "G c (ExtractRequest (raw_text s)) = Inr t \<Longrightarrow>
   llm_extract G c s = Returned (s\<lparr>last_json_text := py_strip t,
     run_log := run_log s @ [ExtractEntry (attempt s) (take 2000 (py_strip t))]\<rparr>)"
  by (simp add: llm_extract_def Let_def)

lemma llm_correct_ok:
  "G c (CorrectRequest (last_json_text s) (validation_error s)) = Inr t \<Longrightarrow>
   llm_correct G c s = Returned (s\<lparr>last_json_text := py_strip t,
     run_log := run_log s @ [CorrectEntry (attempt s) (take 2000 (py_strip t))]\<rparr>)"
  by (simp add: llm_correct_def Let_def)

lemma validate_entry:
  "\<exists>v. run_log (validate L s) = run_log s @ [v] \<and> step v = ''validate'' \<and>
     entry_attempt v = attempt s \<and> (status v = Some ''fail'') = (result (validate L s) = None) \<and>
     (status v = Some ''pass'') = (result (validate L s) \<noteq> None)"
  by (cases "model_validate_json L (last_json_text s)") (simp_all add: validate_failed validate_passed)

lemma validate_keeps [simp]:
  "last_json_text (validate L s) = last_json_text s" "raw_text (validate L s) = raw_text s"
  by (simp_all add: validate_def Let_def split: sum.splits)

lemma run_agent_small_budget:
  assumes "m \<le> 1"
  shows "run_agent L G raw m = (case G 0 (ExtractRequest raw) of
       Inl e \<Rightarrow> Raised e \<lparr>raw_text = raw, attempt = 1, max_attempts = m, last_json_text = [],
           validation_error = [], result = None, run_log = []\<rparr>
     | Inr t \<Rightarrow> Returned (validate L \<lparr>raw_text = raw, attempt = 1, max_attempts = m,
           last_json_text = py_strip t, validation_error = [], result = None,
           run_log = [ExtractEntry 1 (take 2000 (py_strip t))]\<rparr>))"
proof (cases "G 0 (ExtractRequest raw)")
  case (Inl e)
  then show ?thesis by (simp add: run_agent_def graph_invoke_def llm_extract_def)
next
  case (Inr t)
  then show ?thesis using assms
    by (simp add: run_agent_def graph_invoke_def llm_extract_ok graph_loop_done)
qed


lemma count_step_simps [simp]:
  "count_step k [] = 0"
  "count_step k (x # xs) = (if step x = k then Suc (count_step k xs) else count_step k xs)"
  "count_step k (xs @ ys) = count_step k xs + count_step k ys"
  by (simp_all add: count_step_def)

lemma small_budget_returned:
  assumes m: "m \<le> 1" and r: "run_agent L G raw m = Returned s"
  shows "\<exists>t v. G 0 (ExtractRequest raw) = Inr t \<and>
      run_log s = [ExtractEntry 1 (take 2000 (py_strip t)), v] \<and> step v = ''validate'' \<and>
      entry_attempt v = 1 \<and> (status v = Some ''fail'') = (result s = None) \<and>
      attempt s = 1 \<and> max_attempts s = m \<and> last_json_text s = py_strip t"
proof (cases "G 0 (ExtractRequest raw)")
  case (Inl e)
  with r m show ?thesis by (simp add: run_agent_small_budget)
next
  case (Inr t)
  let ?s1 = "\<lparr>raw_text = raw, attempt = 1, max_attempts = m,
           last_json_text = py_strip t, validation_error = [], result = None,
           run_log = [ExtractEntry 1 (take 2000 (py_strip t))]\<rparr>"
  from r m Inr have s: "s = validate L ?s1" by (simp add: run_agent_small_budget)
  from validate_entry[of L ?s1] s Inr show ?thesis by auto
qed

text \<open>
  Claim C2. With \<open>max_attempts = 1\<close>, for every input text and every generator:
  when the extract call returns, the run ends after that extract and one
  validate; the final log is the extract entry followed by one validate entry
  (passed or failed), with no correct entry; and no generator call after the
  first has any influence on the run.
\<close>

theorem one_attempt_single_pass:
  "(\<forall>t. G 0 (ExtractRequest raw) = Inr t \<longrightarrow> (\<exists>s. run_agent L G raw 1 = Returned s))
   \<and> (\<forall>s. run_agent L G raw 1 = Returned s \<longrightarrow>
        (\<exists>out v. run_log s = [ExtractEntry 1 out, v] \<and> step v = ''validate'' \<and>
           (status v = Some ''fail'') = (result s = None)) \<and>
        count_step ''extract'' (run_log s) = 1 \<and>
        count_step ''validate'' (run_log s) = 1 \<and>
        count_step ''correct'' (run_log s) = 0)
   \<and> (\<forall>G'. G' 0 = G 0 \<longrightarrow> run_agent L G' raw 1 = run_agent L G raw 1)"
proof (intro conjI allI impI)
  fix t assume "G 0 (ExtractRequest raw) = Inr t"
  then show "\<exists>s. run_agent L G raw 1 = Returned s"
    by (simp add: run_agent_small_budget)
next
  fix s assume r: "run_agent L G raw 1 = Returned s"
  from small_budget_returned[OF _ r] obtain t v where
    l: "run_log s = [ExtractEntry 1 (take 2000 (py_strip t)), v]" and v: "step v = ''validate''"
    and f: "(status v = Some ''fail'') = (result s = None)"
    by auto
  from l v f show "\<exists>out v. run_log s = [ExtractEntry 1 out, v] \<and> step v = ''validate'' \<and>
           (status v = Some ''fail'') = (result s = None)" by auto
  from l v show "count_step ''extract'' (run_log s) = 1" by simp
  from l v show "count_step ''validate'' (run_log s) = 1" by simp
  from l v show "count_step ''correct'' (run_log s) = 0" by simp
next
  fix G' :: "'a generator" assume "G' 0 = G 0"
  then show "run_agent L G' raw 1 = run_agent L G raw 1"
    by (simp add: run_agent_small_budget)
qed

theorem one_attempt_single_pass_witness:
  "run_log (case run_agent test_pydantic stubborn_generator ''raw'' 1 of
       Returned s \<Rightarrow> s | Raised e s \<Rightarrow> s) =
     [ExtractEntry 1 bad_text, ValidateFail 1 ''validation error'']
   \<and> run_agent test_pydantic failing_generator ''raw'' 1 =
       run_agent test_pydantic stubborn_generator ''raw'' 1"
proof -
  have g: "stubborn_generator 0 (ExtractRequest ''raw'') = Inr bad_text"
    by (simp add: stubborn_generator_def)
  with one_attempt_single_pass[of stubborn_generator "''raw''" test_pydantic]
  obtain s where s: "run_agent test_pydantic stubborn_generator ''raw'' 1 = Returned s" by blast
  have e: "run_agent test_pydantic stubborn_generator ''raw'' 1 =
     Returned \<lparr>raw_text = ''raw'', attempt = 1, max_attempts = 1, last_json_text = bad_text,
       validation_error = ''validation error'', result = None,
       run_log = [ExtractEntry 1 bad_text, ValidateFail 1 ''validation error'']\<rparr>"
    by code_simp
  have "failing_generator 0 = stubborn_generator 0"
    by (rule ext) (simp add: failing_generator_def stubborn_generator_def)
  with one_attempt_single_pass[of stubborn_generator "''raw''" test_pydantic]
  have "run_agent test_pydantic failing_generator ''raw'' 1 =
       run_agent test_pydantic stubborn_generator ''raw'' 1" by blast
  with e show ?thesis by simp
qed


text \<open>
  Claim C10. With \<open>max_attempts \<le> 1\<close>, zero and negative budgets included, the
  run still makes one extract step and one validate step and then ends: the
  counter starts at 1 and is still 1 at the end, it has reached the budget at
  the first validation, \<^verbatim>\<open>_should_retry\<close> answers finalize, and no correct
  step runs even when that validation fails.
\<close>

theorem budget_at_most_one_single_pass:
  assumes "m \<le> 1"
  shows "(\<forall>t. G 0 (ExtractRequest raw) = Inr t \<longrightarrow> (\<exists>s. run_agent L G raw m = Returned s))
   \<and> (\<forall>s. run_agent L G raw m = Returned s \<longrightarrow>
        attempt s = 1 \<and> max_attempts s \<le> attempt s \<and> should_retry s = ''finalize'' \<and>
        map step (run_log s) = [''extract'', ''validate''] \<and>
        map entry_attempt (run_log s) = [1, 1])
   \<and> (\<forall>t errs. G 0 (ExtractRequest raw) = Inr t \<and>
          model_validate_json L (py_strip t) = Inl errs \<longrightarrow>
        (\<exists>s. run_agent L G raw m = Returned s \<and> result s = None \<and>
           run_log s = [ExtractEntry 1 (take 2000 (py_strip t)),
                        ValidateFail 1 (take 2000 (error_str L errs))]))"
proof (intro conjI allI impI)
  fix t assume "G 0 (ExtractRequest raw) = Inr t"
  then show "\<exists>s. run_agent L G raw m = Returned s"
    using assms by (simp add: run_agent_small_budget)
next
  fix s assume r: "run_agent L G raw m = Returned s"
  from small_budget_returned[OF assms r] obtain t v where
    l: "run_log s = [ExtractEntry 1 (take 2000 (py_strip t)), v]" and v: "step v = ''validate''"
    and a: "entry_attempt v = 1" "attempt s = 1" "max_attempts s = m"
    by auto
  from a show "attempt s = 1" by simp
  from a assms show "max_attempts s \<le> attempt s" by simp
  from a assms show "should_retry s = ''finalize''" by (simp add: should_retry_def)
  from l v show "map step (run_log s) = [''extract'', ''validate'']" by simp
  from l a show "map entry_attempt (run_log s) = [1, 1]" by simp
next
  fix t errs
  assume h: "G 0 (ExtractRequest raw) = Inr t \<and> model_validate_json L (py_strip t) = Inl errs"
  then show "\<exists>s. run_agent L G raw m = Returned s \<and> result s = None \<and>
           run_log s = [ExtractEntry 1 (take 2000 (py_strip t)),
                        ValidateFail 1 (take 2000 (error_str L errs))]"
    using assms by (simp add: run_agent_small_budget validate_failed)
qed

theorem budget_at_most_one_single_pass_witness:
  "(\<exists>s. run_agent test_pydantic stubborn_generator ''raw'' (- 2) = Returned s \<and>
      result s = None \<and> attempt s = 1 \<and>
      run_log s = [ExtractEntry 1 bad_text, ValidateFail 1 ''validation error''])
   \<and> (\<exists>s. run_agent test_pydantic stubborn_generator ''raw'' 0 = Returned s \<and>
      map step (run_log s) = [''extract'', ''validate''])"
proof -
  have g: "stubborn_generator 0 (ExtractRequest ''raw'') = Inr bad_text"
    by (simp add: stubborn_generator_def)
  have st: "py_strip bad_text = bad_text" by code_simp
  have b: "model_validate_json test_pydantic (py_strip bad_text) =
     Inl [([Key ''employees'', Idx 0, Key ''name''], ''string_too_short''),
          ([Key ''employees'', Idx 0, Key ''department''], ''literal_error'')]"
    by code_simp
  have tk: "take 2000 bad_text = bad_text" by code_simp
  have e: "error_str test_pydantic = (\<lambda>es. ''validation error'')" by (simp add: test_pydantic_def)
  have m2: "(- 2 :: int) \<le> 1" by simp
  have m0: "(0 :: int) \<le> 1" by simp
  from budget_at_most_one_single_pass[OF m2, of stubborn_generator "''raw''" test_pydantic] g b
  obtain s where s: "run_agent test_pydantic stubborn_generator ''raw'' (- 2) = Returned s"
     "result s = None"
     "run_log s = [ExtractEntry 1 (take 2000 (py_strip bad_text)), ValidateFail 1 (take 2000 ''validation error'')]"
    unfolding e by blast
  from budget_at_most_one_single_pass[OF m2, of stubborn_generator "''raw''" test_pydantic] s(1)
  have a: "attempt s = 1" by blast
  from budget_at_most_one_single_pass[OF m0, of stubborn_generator "''raw''" test_pydantic] g
  obtain s' where s': "run_agent test_pydantic stubborn_generator ''raw'' 0 = Returned s'"
    by blast
  with budget_at_most_one_single_pass[OF m0, of stubborn_generator "''raw''" test_pydantic]
  have l': "map step (run_log s') = [''extract'', ''validate'']" by blast
  from s a s' l' show ?thesis by (auto simp: st tk)
qed


lemma inc_attempt_fields [simp]:
  "attempt (inc_attempt s) = attempt s + 1" "run_log (inc_attempt s) = run_log s"
  "max_attempts (inc_attempt s) = max_attempts s" "last_json_text (inc_attempt s) = last_json_text s"
  by (simp_all add: inc_attempt_def)

lemma validate_correct_count:
  "count_step ''correct'' (run_log (validate L s)) = count_step ''correct'' (run_log s)"
  using validate_entry[of L s] by auto

lemma llm_correct_returned:
  "llm_correct G c s = Returned k \<Longrightarrow>
   \<exists>out. run_log k = run_log s @ [CorrectEntry (attempt s) out] \<and> attempt k = attempt s"
  by (auto simp: llm_correct_def Let_def split: sum.splits)

lemma graph_loop_attempt_count:
  "graph_loop L G c s = Returned s' \<Longrightarrow>
   attempt s' - int (count_step ''correct'' (run_log s')) =
   attempt s - int (count_step ''correct'' (run_log s))"
proof (induction L G c s rule: graph_loop.induct)
  case (1 L G c state)
  show ?case
  proof (cases "should_retry (validate L state) = ''retry''")
    case False
    with "1.prems" have "s' = validate L state"
      by (subst (asm) graph_loop.simps) (simp add: Let_def)
    then show ?thesis by (simp add: validate_correct_count)
  next
    case True
    with "1.prems" obtain k where k: "llm_correct G c (validate L state) = Returned k"
      and r: "graph_loop L G (Suc c) (inc_attempt k) = Returned s'"
      by (subst (asm) graph_loop.simps) (auto simp: Let_def split: outcome.splits)
    from "1.IH"[OF refl True k r] llm_correct_returned[OF k]
    show ?thesis by (auto simp: validate_correct_count)
  qed
qed

lemma run_agent_attempt_count:
  assumes "run_agent L G raw m = Returned s"
  shows "attempt s = 1 + int (count_step ''correct'' (run_log s))"
proof (cases "G 0 (ExtractRequest raw)")
  case (Inl e)
  with assms show ?thesis by (simp add: run_agent_def graph_invoke_def llm_extract_def)
next
  case (Inr t)
  with assms have "graph_loop L G 1 \<lparr>raw_text = raw, attempt = 1, max_attempts = m,
      last_json_text = py_strip t, validation_error = [], result = None,
      run_log = [ExtractEntry 1 (take 2000 (py_strip t))]\<rparr> = Returned s"
    by (simp add: run_agent_def graph_invoke_def llm_extract_ok)
  from graph_loop_attempt_count[OF this] show ?thesis by simp
qed

lemma retry_step:
  assumes H: "\<forall>c req. \<exists>t. G c req = Inr t \<and> isl (model_validate_json L (py_strip t))"
    and bad: "isl (model_validate_json L (last_json_text s))"
    and lt: "attempt s < max_attempts s"
  shows "\<exists>e out. graph_loop L G c s = graph_loop L G (Suc c)
       (s\<lparr>attempt := attempt s + 1, last_json_text := out, validation_error := e, result := None,
          run_log := run_log s @ [ValidateFail (attempt s) (take 2000 e),
                                  CorrectEntry (attempt s) (take 2000 out)]\<rparr>)
     \<and> isl (model_validate_json L out)"
proof -
  from bad obtain errs where errs: "model_validate_json L (last_json_text s) = Inl errs"
    by (cases "model_validate_json L (last_json_text s)") auto
  let ?v = "validate L s"
  from H obtain t where t: "G c (CorrectRequest (last_json_text ?v) (validation_error ?v)) = Inr t"
    and tb: "isl (model_validate_json L (py_strip t))" by blast
  have "graph_loop L G c s = graph_loop L G (Suc c) (inc_attempt (?v\<lparr>last_json_text := py_strip t,
     run_log := run_log ?v @ [CorrectEntry (attempt ?v) (take 2000 (py_strip t))]\<rparr>))"
    by (simp add: graph_loop_retry[OF errs lt] llm_correct_ok[of G c ?v t, OF t])
  also have "inc_attempt (?v\<lparr>last_json_text := py_strip t,
     run_log := run_log ?v @ [CorrectEntry (attempt ?v) (take 2000 (py_strip t))]\<rparr>) =
     s\<lparr>attempt := attempt s + 1, last_json_text := py_strip t,
       validation_error := error_str L errs, result := None,
       run_log := run_log s @ [ValidateFail (attempt s) (take 2000 (error_str L errs)),
                               CorrectEntry (attempt s) (take 2000 (py_strip t))]\<rparr>"
    by (simp add: validate_failed[OF errs] inc_attempt_def)
  finally show ?thesis using tb by blast
qed


lemma always_invalid_run:
  assumes H: "\<forall>c req. \<exists>t. G c req = Inr t \<and> isl (model_validate_json L (py_strip t))"
  shows "\<exists>s o0 e1 o1 e2 o2 e3. run_agent L G raw 3 = Returned s \<and> result s = None \<and>
     attempt s = 3 \<and>
     run_log s = [ExtractEntry 1 o0, ValidateFail 1 e1, CorrectEntry 1 o1, ValidateFail 2 e2,
                  CorrectEntry 2 o2, ValidateFail 3 e3]"
proof -
  from H obtain t0 where t0: "G 0 (ExtractRequest raw) = Inr t0"
    and b0: "isl (model_validate_json L (py_strip t0))" by blast
  define s1 where "s1 = \<lparr>raw_text = raw, attempt = 1, max_attempts = 3,
      last_json_text = py_strip t0, validation_error = [], result = None,
      run_log = [ExtractEntry 1 (take 2000 (py_strip t0))]\<rparr>"
  have r0: "run_agent L G raw 3 = graph_loop L G 1 s1"
    by (simp add: run_agent_def graph_invoke_def llm_extract_ok t0 s1_def)
  have "isl (model_validate_json L (last_json_text s1))" "attempt s1 < max_attempts s1"
    using b0 by (simp_all add: s1_def)
  from retry_step[OF H this, of 1] obtain e1 out1 where
    r1: "graph_loop L G 1 s1 = graph_loop L G 2
       (s1\<lparr>attempt := 2, last_json_text := out1, validation_error := e1, result := None,
          run_log := [ExtractEntry 1 (take 2000 (py_strip t0)), ValidateFail 1 (take 2000 e1),
                      CorrectEntry 1 (take 2000 out1)]\<rparr>)"
    and b1: "isl (model_validate_json L out1)"
    by (auto simp: s1_def numeral_2_eq_2)
  define s2 where "s2 = s1\<lparr>attempt := 2, last_json_text := out1, validation_error := e1,
      result := None,
      run_log := [ExtractEntry 1 (take 2000 (py_strip t0)), ValidateFail 1 (take 2000 e1),
                  CorrectEntry 1 (take 2000 out1)]\<rparr>"
  have "isl (model_validate_json L (last_json_text s2))" "attempt s2 < max_attempts s2"
    using b1 by (simp_all add: s2_def s1_def)
  from retry_step[OF H this, of 2] obtain e2 out2 where
    r2: "graph_loop L G 2 s2 = graph_loop L G 3
       (s2\<lparr>attempt := 3, last_json_text := out2, validation_error := e2, result := None,
          run_log := [ExtractEntry 1 (take 2000 (py_strip t0)), ValidateFail 1 (take 2000 e1),
                      CorrectEntry 1 (take 2000 out1), ValidateFail 2 (take 2000 e2),
                      CorrectEntry 2 (take 2000 out2)]\<rparr>)"
    and b2: "isl (model_validate_json L out2)"
    by (auto simp: s2_def s1_def eval_nat_numeral)
  define s3 where "s3 = s2\<lparr>attempt := 3, last_json_text := out2, validation_error := e2,
      result := None,
      run_log := [ExtractEntry 1 (take 2000 (py_strip t0)), ValidateFail 1 (take 2000 e1),
                  CorrectEntry 1 (take 2000 out1), ValidateFail 2 (take 2000 e2),
                  CorrectEntry 2 (take 2000 out2)]\<rparr>"
  from b2 obtain errs3 where e3: "model_validate_json L (last_json_text s3) = Inl errs3"
    by (cases "model_validate_json L out2") (auto simp: s3_def)
  have "max_attempts s3 \<le> attempt s3" by (simp add: s3_def s2_def s1_def)
  from graph_loop_done[OF this] have r3: "graph_loop L G 3 s3 = Returned (validate L s3)" .
  have "run_agent L G raw 3 = Returned (validate L s3)"
    using r0 r1 r2 r3 by (simp add: s2_def s3_def)
  moreover have "result (validate L s3) = None" "attempt (validate L s3) = 3"
    "run_log (validate L s3) =
       [ExtractEntry 1 (take 2000 (py_strip t0)), ValidateFail 1 (take 2000 e1),
        CorrectEntry 1 (take 2000 out1), ValidateFail 2 (take 2000 e2),
        CorrectEntry 2 (take 2000 out2), ValidateFail 3 (take 2000 (error_str L errs3))]"
    by (simp_all add: validate_failed[OF e3]) (simp_all add: s3_def)
  ultimately show ?thesis by blast
qed

text \<open>
  Claim C1. With \<open>max_attempts = 3\<close> and a generator whose every output (the
  extraction and every correction) fails validation, the run ends with no
  result; its log is extract, validate, correct, validate, correct, validate:
  three validate entries, all failed, and two correct entries. In every run
  that returns, the final attempt counter is 1 plus the number of correct
  entries: it starts at 1 and goes up once per correction cycle.
\<close>

theorem always_invalid_three_attempts:
  "((\<forall>c req. \<exists>t. G c req = Inr t \<and> isl (model_validate_json L (py_strip t))) \<longrightarrow>
      (\<exists>s o0 e1 o1 e2 o2 e3. run_agent L G raw 3 = Returned s \<and> result s = None \<and>
         run_log s = [ExtractEntry 1 o0, ValidateFail 1 e1, CorrectEntry 1 o1, ValidateFail 2 e2,
                      CorrectEntry 2 o2, ValidateFail 3 e3] \<and>
         count_step ''validate'' (run_log s) = 3 \<and>
         (\<forall>x\<in>set (run_log s). step x = ''validate'' \<longrightarrow> status x = Some ''fail'') \<and>
         count_step ''correct'' (run_log s) = 2 \<and>
         count_step ''extract'' (run_log s) = 1 \<and>
         attempt s = 3))
   \<and> (\<forall>s. run_agent L G raw m = Returned s \<longrightarrow>
         attempt s = 1 + int (count_step ''correct'' (run_log s)))"
proof (rule conjI)
  show "(\<forall>c req. \<exists>t. G c req = Inr t \<and> isl (model_validate_json L (py_strip t))) \<longrightarrow>
      (\<exists>s o0 e1 o1 e2 o2 e3. run_agent L G raw 3 = Returned s \<and> result s = None \<and>
         run_log s = [ExtractEntry 1 o0, ValidateFail 1 e1, CorrectEntry 1 o1, ValidateFail 2 e2,
                      CorrectEntry 2 o2, ValidateFail 3 e3] \<and>
         count_step ''validate'' (run_log s) = 3 \<and>
         (\<forall>x\<in>set (run_log s). step x = ''validate'' \<longrightarrow> status x = Some ''fail'') \<and>
         count_step ''correct'' (run_log s) = 2 \<and>
         count_step ''extract'' (run_log s) = 1 \<and>
         attempt s = 3)"
  proof
    assume "\<forall>c req. \<exists>t. G c req = Inr t \<and> isl (model_validate_json L (py_strip t))"
    from always_invalid_run[OF this, of raw] obtain s o0 e1 o1 e2 o2 e3 where
      r: "run_agent L G raw 3 = Returned s" "result s = None" "attempt s = 3" and
      l: "run_log s = [ExtractEntry 1 o0, ValidateFail 1 e1, CorrectEntry 1 o1, ValidateFail 2 e2,
                  CorrectEntry 2 o2, ValidateFail 3 e3]"
      by blast
    have "count_step ''validate'' (run_log s) = 3" "count_step ''correct'' (run_log s) = 2"
      "count_step ''extract'' (run_log s) = 1"
      "\<forall>x\<in>set (run_log s). step x = ''validate'' \<longrightarrow> status x = Some ''fail''"
      by (simp_all add: l)
    with r l show "\<exists>s o0 e1 o1 e2 o2 e3. run_agent L G raw 3 = Returned s \<and> result s = None \<and>
         run_log s = [ExtractEntry 1 o0, ValidateFail 1 e1, CorrectEntry 1 o1, ValidateFail 2 e2,
                      CorrectEntry 2 o2, ValidateFail 3 e3] \<and>
         count_step ''validate'' (run_log s) = 3 \<and>
         (\<forall>x\<in>set (run_log s). step x = ''validate'' \<longrightarrow> status x = Some ''fail'') \<and>
         count_step ''correct'' (run_log s) = 2 \<and>
         count_step ''extract'' (run_log s) = 1 \<and>
         attempt s = 3"
      by blast
  qed
next
  show "\<forall>s. run_agent L G raw m = Returned s \<longrightarrow>
         attempt s = 1 + int (count_step ''correct'' (run_log s))"
    by (simp add: run_agent_attempt_count)
qed

theorem always_invalid_three_attempts_witness:
  "run_agent test_pydantic stubborn_generator ''raw'' 3 =
     Returned \<lparr>raw_text = ''raw'', attempt = 3, max_attempts = 3, last_json_text = bad_text,
       validation_error = ''validation error'', result = None,
       run_log = [ExtractEntry 1 bad_text, ValidateFail 1 ''validation error'',
                  CorrectEntry 1 bad_text, ValidateFail 2 ''validation error'',
                  CorrectEntry 2 bad_text, ValidateFail 3 ''validation error'']\<rparr>
   \<and> count_step ''validate'' (run_log (case run_agent test_pydantic stubborn_generator ''raw'' 3 of
        Returned s \<Rightarrow> s | Raised e s \<Rightarrow> s)) = 3"
proof -
  have b: "isl (model_validate_json test_pydantic (py_strip bad_text))" by code_simp
  have H: "\<forall>c req. \<exists>t. stubborn_generator c req = Inr t \<and>
      isl (model_validate_json test_pydantic (py_strip t))"
    using b by (simp add: stubborn_generator_def)
  from always_invalid_three_attempts[of stubborn_generator test_pydantic "''raw''" 3] H
  obtain s where s: "run_agent test_pydantic stubborn_generator ''raw'' 3 = Returned s"
    "count_step ''validate'' (run_log s) = 3"
    by blast
  have e: "run_agent test_pydantic stubborn_generator ''raw'' 3 =
     Returned \<lparr>raw_text = ''raw'', attempt = 3, max_attempts = 3, last_json_text = bad_text,
       validation_error = ''validation error'', result = None,
       run_log = [ExtractEntry 1 bad_text, ValidateFail 1 ''validation error'',
                  CorrectEntry 1 bad_text, ValidateFail 2 ''validation error'',
                  CorrectEntry 2 bad_text, ValidateFail 3 ''validation error'']\<rparr>"
    by code_simp
  from s e show ?thesis by simp
qed


lemma llm_correct_raised:
  "llm_correct G c s = Raised e sa \<Longrightarrow>
   sa = s \<and> G c (CorrectRequest (last_json_text s) (validation_error s)) = Inl e"
  by (auto simp: llm_correct_def Let_def split: sum.splits)

lemma graph_loop_cases:
  assumes "graph_loop L G c s = r"
  obtains (finalize) "should_retry (validate L s) \<noteq> ''retry''" "r = Returned (validate L s)"
  | (raised) e where "should_retry (validate L s) = ''retry''"
      "llm_correct G c (validate L s) = Raised e (validate L s)" "r = Raised e (validate L s)"
  | (retry) k where "should_retry (validate L s) = ''retry''"
      "llm_correct G c (validate L s) = Returned k" "r = graph_loop L G (Suc c) (inc_attempt k)"
proof (cases "should_retry (validate L s) = ''retry''")
  case False
  with assms have "r = Returned (validate L s)"
    by (subst (asm) graph_loop.simps) (simp add: Let_def)
  with False show ?thesis by (rule finalize)
next
  case True
  show ?thesis
  proof (cases "llm_correct G c (validate L s)")
    case (Raised e sa)
    with llm_correct_raised[OF Raised] have l: "llm_correct G c (validate L s) = Raised e (validate L s)"
      by simp
    with assms True have "r = Raised e (validate L s)"
      by (subst (asm) graph_loop.simps) (simp add: Let_def)
    with True l show ?thesis by (rule raised)
  next
    case (Returned k)
    with assms True have "r = graph_loop L G (Suc c) (inc_attempt k)"
      by (subst (asm) graph_loop.simps) (simp add: Let_def)
    with True Returned show ?thesis by (rule retry)
  qed
qed

lemma graph_loop_log_extends:
  "\<exists>more. run_log (final_state (graph_loop L G c s)) = run_log s @ more"
proof (induction L G c s rule: graph_loop.induct)
  case (1 L G c state)
  obtain v where v: "run_log (validate L state) = run_log state @ [v]"
    using validate_entry[of L state] by blast
  have "graph_loop L G c state = graph_loop L G c state" by simp
  then show ?case
  proof (cases rule: graph_loop_cases)
    case finalize
    with v show ?thesis by simp
  next
    case (raised e)
    with v show ?thesis by simp
  next
    case (retry k)
    from "1.IH"[OF refl retry(1) retry(2)] obtain more where
      "run_log (final_state (graph_loop L G (Suc c) (inc_attempt k))) = run_log k @ more"
      by auto
    with llm_correct_returned[OF retry(2)] v retry(3) show ?thesis by auto
  qed
qed

lemma graph_loop_raised_cause:
  "graph_loop L G c s = Raised e sa \<Longrightarrow> \<exists>k req. G k req = Inl e"
proof (induction L G c s rule: graph_loop.induct)
  case (1 L G c state)
  from "1.prems" show ?case
  proof (cases rule: graph_loop_cases)
    case finalize
    then show ?thesis by simp
  next
    case (raised e')
    with llm_correct_raised[OF raised(2)] show ?thesis by auto
  next
    case (retry k)
    from "1.IH"[OF refl retry(1) retry(2)] retry(3) show ?thesis by simp
  qed
qed

lemma graph_loop_abort_prefix:
  "\<forall>k req t. G k req = Inr t \<longrightarrow> G' k req = Inr t \<Longrightarrow>
   graph_loop L G c s = Raised e sa \<Longrightarrow>
    \<exists>more. run_log (final_state (graph_loop L G' c s)) = run_log sa @ more"
proof (induction L G c s rule: graph_loop.induct)
  case (1 L G c state)
  have self: "graph_loop L G' c state = graph_loop L G' c state" by simp
  from "1.prems"(2) show ?case
  proof (cases rule: graph_loop_cases)
    case finalize
    then show ?thesis by simp
  next
    case (raised e')
    then have sa: "sa = validate L state" by simp
    from self show ?thesis
    proof (cases rule: graph_loop_cases)
      case finalize
      with raised(1) show ?thesis by simp
    next
      case (raised e'')
      with sa show ?thesis by simp
    next
      case (retry k')
      from graph_loop_log_extends[of L G' "Suc c" "inc_attempt k'"]
        llm_correct_returned[OF retry(2)] retry(3) sa
      show ?thesis by auto
    qed
  next
    case (retry k)
    from retry(2) obtain t where
      t: "G c (CorrectRequest (last_json_text (validate L state)) (validation_error (validate L state))) = Inr t"
      by (auto simp: llm_correct_def Let_def split: sum.splits)
    with "1.prems"(1) have "G' c (CorrectRequest (last_json_text (validate L state)) (validation_error (validate L state))) = Inr t"
      by blast
    with t retry(2) have k': "llm_correct G' c (validate L state) = Returned k"
      by (simp add: llm_correct_def Let_def)
    from self have "graph_loop L G' c state = graph_loop L G' (Suc c) (inc_attempt k)"
      by (cases rule: graph_loop_cases) (use retry(1) k' in auto)
    moreover from "1.IH"[OF refl retry(1) retry(2) "1.prems"(1)] retry(3) "1.prems"(2)
    have "\<exists>more. run_log (final_state (graph_loop L G' (Suc c) (inc_attempt k))) = run_log sa @ more"
      by simp
    ultimately show ?thesis by simp
  qed
qed


lemma graph_loop_abort_in_correct:
  assumes "should_retry (validate L s) = ''retry''"
    and "G c (CorrectRequest (last_json_text (validate L s)) (validation_error (validate L s))) = Inl e"
  shows "graph_loop L G c s = Raised e (validate L s)"
proof -
  from assms(2) have "llm_correct G c (validate L s) = Raised e (validate L s)"
    by (simp add: llm_correct_def)
  with assms(1) show ?thesis
    by (subst graph_loop.simps) (simp add: Let_def)
qed

lemma run_agent_unfold:
  "run_agent L G raw m = (case G 0 (ExtractRequest raw) of
       Inl e \<Rightarrow> Raised e \<lparr>raw_text = raw, attempt = 1, max_attempts = m, last_json_text = [],
           validation_error = [], result = None, run_log = []\<rparr>
     | Inr t \<Rightarrow> graph_loop L G 1 \<lparr>raw_text = raw, attempt = 1, max_attempts = m,
           last_json_text = py_strip t, validation_error = [], result = None,
           run_log = [ExtractEntry 1 (take 2000 (py_strip t))]\<rparr>)"
  by (simp add: run_agent_def graph_invoke_def llm_extract_def Let_def split: sum.splits)

lemma run_agent_raised_cause:
  "run_agent L G raw m = Raised e sa \<Longrightarrow> \<exists>k req. G k req = Inl e"
  by (cases "G 0 (ExtractRequest raw)")
    (auto simp: run_agent_unfold dest: graph_loop_raised_cause)

lemma run_agent_abort_prefix:
  assumes agree: "\<forall>k req t. G k req = Inr t \<longrightarrow> G' k req = Inr t"
    and r: "run_agent L G raw m = Raised e sa"
  shows "\<exists>more. run_log (final_state (run_agent L G' raw m)) = run_log sa @ more"
proof (cases "G 0 (ExtractRequest raw)")
  case (Inl e')
  with r have "run_log sa = []" by (auto simp: run_agent_unfold)
  then show ?thesis by simp
next
  case (Inr t)
  with agree have g': "G' 0 (ExtractRequest raw) = Inr t" by blast
  from r Inr have "graph_loop L G 1 \<lparr>raw_text = raw, attempt = 1, max_attempts = m,
           last_json_text = py_strip t, validation_error = [], result = None,
           run_log = [ExtractEntry 1 (take 2000 (py_strip t))]\<rparr> = Raised e sa"
    by (simp add: run_agent_unfold)
  from graph_loop_abort_prefix[OF agree this] g' show ?thesis
    by (simp add: run_agent_unfold)
qed

text \<open>
  Claim C5. A generator call that raises ends the run at once with that
  exception. Raised in the extract step, nothing has been logged; raised in a
  correct step, the state is the one the preceding validate left. The caller
  of \<^verbatim>\<open>run_agent\<close> gets the exception and no state, so the outcome differs from
  every returned state, the one with \<open>result = None\<close> after an exhausted budget
  included. An exception of a run is always one a generator call raised, and
  the log at the abort is an initial part of the log of the run with any
  generator that answers the same wherever this one answered.
\<close>

theorem generator_failure_aborts_run:
  "(G 0 (ExtractRequest raw) = Inl e \<longrightarrow>
      run_agent L G raw m = Raised e \<lparr>raw_text = raw, attempt = 1, max_attempts = m,
        last_json_text = [], validation_error = [], result = None, run_log = []\<rparr>)
   \<and> (should_retry (validate L s) = ''retry'' \<and>
       G c (CorrectRequest (last_json_text (validate L s)) (validation_error (validate L s))) = Inl e
       \<longrightarrow> graph_loop L G c s = Raised e (validate L s))
   \<and> (\<forall>sa. run_agent L G raw m = Raised e sa \<longrightarrow>
         caller_gets (run_agent L G raw m) = Inl e \<and>
         (\<forall>t. caller_gets (run_agent L G raw m) \<noteq> Inr t) \<and>
         (\<exists>k req. G k req = Inl e) \<and>
         (\<forall>G'. (\<forall>k req t. G k req = Inr t \<longrightarrow> G' k req = Inr t) \<longrightarrow>
            (\<exists>more. run_log (final_state (run_agent L G' raw m)) = run_log sa @ more)))
   \<and> (\<forall>sf. run_agent L G raw m = Returned sf \<longrightarrow> caller_gets (run_agent L G raw m) = Inr sf)"
proof (intro conjI)
  show "G 0 (ExtractRequest raw) = Inl e \<longrightarrow>
      run_agent L G raw m = Raised e \<lparr>raw_text = raw, attempt = 1, max_attempts = m,
        last_json_text = [], validation_error = [], result = None, run_log = []\<rparr>"
    by (simp add: run_agent_unfold)
  show "should_retry (validate L s) = ''retry'' \<and>
       G c (CorrectRequest (last_json_text (validate L s)) (validation_error (validate L s))) = Inl e
       \<longrightarrow> graph_loop L G c s = Raised e (validate L s)"
    by (simp add: graph_loop_abort_in_correct)
  show "\<forall>sa. run_agent L G raw m = Raised e sa \<longrightarrow>
         caller_gets (run_agent L G raw m) = Inl e \<and>
         (\<forall>t. caller_gets (run_agent L G raw m) \<noteq> Inr t) \<and>
         (\<exists>k req. G k req = Inl e) \<and>
         (\<forall>G'. (\<forall>k req t. G k req = Inr t \<longrightarrow> G' k req = Inr t) \<longrightarrow>
            (\<exists>more. run_log (final_state (run_agent L G' raw m)) = run_log sa @ more))"
  proof (intro allI impI)
    fix sa assume r: "run_agent L G raw m = Raised e sa"
    have 1: "caller_gets (run_agent L G raw m) = Inl e" by (simp add: r)
    have 2: "\<forall>t. caller_gets (run_agent L G raw m) \<noteq> Inr t" by (simp add: r)
    have 3: "\<exists>k req. G k req = Inl e" by (rule run_agent_raised_cause[OF r])
    have 4: "\<forall>G'. (\<forall>k req t. G k req = Inr t \<longrightarrow> G' k req = Inr t) \<longrightarrow>
            (\<exists>more. run_log (final_state (run_agent L G' raw m)) = run_log sa @ more)"
      using run_agent_abort_prefix[OF _ r] by blast
    from 1 2 3 4 show "caller_gets (run_agent L G raw m) = Inl e \<and>
         (\<forall>t. caller_gets (run_agent L G raw m) \<noteq> Inr t) \<and>
         (\<exists>k req. G k req = Inl e) \<and>
         (\<forall>G'. (\<forall>k req t. G k req = Inr t \<longrightarrow> G' k req = Inr t) \<longrightarrow>
            (\<exists>more. run_log (final_state (run_agent L G' raw m)) = run_log sa @ more))"
      by blast
  qed
  show "\<forall>sf. run_agent L G raw m = Returned sf \<longrightarrow> caller_gets (run_agent L G raw m) = Inr sf"
    by simp
qed

theorem generator_failure_aborts_run_witness:
  "run_agent test_pydantic down_generator ''raw'' 3 =
     Raised ''timeout'' \<lparr>raw_text = ''raw'', attempt = 1, max_attempts = 3, last_json_text = [],
        validation_error = [], result = None, run_log = []\<rparr>
   \<and> run_agent test_pydantic failing_generator ''raw'' 3 =
     Raised ''timeout'' \<lparr>raw_text = ''raw'', attempt = 1, max_attempts = 3,
        last_json_text = bad_text, validation_error = ''validation error'', result = None,
        run_log = [ExtractEntry 1 bad_text, ValidateFail 1 ''validation error'']\<rparr>
   \<and> caller_gets (run_agent test_pydantic failing_generator ''raw'' 3) = Inl ''timeout''
   \<and> (\<exists>more. run_log (final_state (run_agent test_pydantic stubborn_generator ''raw'' 3)) =
         [ExtractEntry 1 bad_text, ValidateFail 1 ''validation error''] @ more)"
proof -
  have d: "down_generator 0 (ExtractRequest ''raw'') = Inl ''timeout''"
    by (simp add: down_generator_def)
  from generator_failure_aborts_run[of down_generator "''raw''" "''timeout''" test_pydantic 3] d
  have 1: "run_agent test_pydantic down_generator ''raw'' 3 =
     Raised ''timeout'' \<lparr>raw_text = ''raw'', attempt = 1, max_attempts = 3, last_json_text = [],
        validation_error = [], result = None, run_log = []\<rparr>"
    by blast
  have 2: "run_agent test_pydantic failing_generator ''raw'' 3 =
     Raised ''timeout'' \<lparr>raw_text = ''raw'', attempt = 1, max_attempts = 3,
        last_json_text = bad_text, validation_error = ''validation error'', result = None,
        run_log = [ExtractEntry 1 bad_text, ValidateFail 1 ''validation error'']\<rparr>"
    by code_simp
  have a: "\<forall>k req t. failing_generator k req = Inr t \<longrightarrow> stubborn_generator k req = Inr t"
    by (simp add: failing_generator_def stubborn_generator_def)
  from generator_failure_aborts_run[of failing_generator "''raw''" "''timeout''" test_pydantic 3] 2
  have 3: "caller_gets (run_agent test_pydantic failing_generator ''raw'' 3) = Inl ''timeout''"
    and 4: "\<forall>G'. (\<forall>k req t. failing_generator k req = Inr t \<longrightarrow> G' k req = Inr t) \<longrightarrow>
            (\<exists>more. run_log (final_state (run_agent test_pydantic G' ''raw'' 3)) =
               [ExtractEntry 1 bad_text, ValidateFail 1 ''validation error''] @ more)"
    by auto
  from 4 a have 5: "\<exists>more. run_log (final_state (run_agent test_pydantic stubborn_generator ''raw'' 3)) =
         [ExtractEntry 1 bad_text, ValidateFail 1 ''validation error''] @ more"
    by blast
  from 1 2 3 5 show ?thesis by blast
qed


section \<open>Properties of the offline runner\<close>

lemma offline_loop_closed:
  "offline_loop L outs lg ls att =
     (case dropWhile (rejects L) outs of
        [] \<Rightarrow>
          \<lparr>o_result = None, o_log = lg @ failed_entries L att (takeWhile (rejects L) outs),
           o_last_json_text = (if outs = [] then ls else last outs)\<rparr>
      | out # rest \<Rightarrow>
          \<lparr>o_result = Some (model_dump (projr (model_validate_json L out))),
           o_log = lg @ failed_entries L att (takeWhile (rejects L) outs)
             @ [ExtractEntry (att + int (length (takeWhile (rejects L) outs))) out,
                ValidatePass (att + int (length (takeWhile (rejects L) outs)))],
           o_last_json_text = out\<rparr>)"
proof (induction outs arbitrary: lg ls att)
  case Nil
  then show ?case by simp
next
  case (Cons out outs)
  show ?case
  proof (cases "model_validate_json L out")
    case (Inr d)
    then show ?thesis by (simp add: rejects_def)
  next
    case (Inl e)
    then have r: "rejects L out" by (simp add: rejects_def)
    show ?thesis
    proof (cases "dropWhile (rejects L) outs")
      case Nil
      with Inl r show ?thesis by (simp add: Cons.IH del: dropWhile_eq_Nil_conv)
    next
      case (Cons y ys)
      with Inl r show ?thesis by (simp add: Cons.IH add.assoc del: dropWhile_eq_Nil_conv)
    qed
  qed
qed

lemma run_offline_agent_replay:
  "run_offline_agent L raw outs m = replay L (py_slice_to outs m)"
  by (cases "dropWhile (rejects L) (py_slice_to outs m)")
    (simp_all add: run_offline_agent_def replay_def offline_loop_closed Let_def
      del: dropWhile_eq_Nil_conv)

lemma count_extract_failed [simp]:
  "count_step ''extract'' (failed_entries L att outs) = length outs"
  by (induction outs arbitrary: att) simp_all

lemma count_extract_replay:
  "count_step ''extract'' (o_log (replay L outs)) \<le> length outs"
proof -
  have "length (takeWhile (rejects L) outs) + length (dropWhile (rejects L) outs) = length outs"
    by (metis length_append takeWhile_dropWhile_id)
  then show ?thesis
    by (auto simp: replay_def Let_def split: list.splits)
qed


lemma replay_result:
  "(o_result (replay L outs) \<noteq> None) = (\<exists>out\<in>set outs. \<not> rejects L out)"
proof (cases "dropWhile (rejects L) outs")
  case Nil
  then have "\<forall>x\<in>set outs. rejects L x" by simp
  with Nil show ?thesis by (simp add: replay_def Let_def del: dropWhile_eq_Nil_conv)
next
  case (Cons y ys)
  then have "\<not> (\<forall>x\<in>set outs. rejects L x)" by (metis dropWhile_eq_Nil_conv list.distinct(1))
  with Cons show ?thesis by (simp add: replay_def Let_def del: dropWhile_eq_Nil_conv)
qed

lemma slice_nonneg: "0 \<le> m \<Longrightarrow> py_slice_to outs m = take (nat m) outs"
  by (simp add: py_slice_to_def)

lemma offline_fail_then_pass:
  assumes b: "rejects L bad" and g: "model_validate_json L good = Inr d"
  shows "run_offline_agent L raw [bad, good] 2 =
     \<lparr>o_result = Some (model_dump d),
      o_log = [ExtractEntry 1 bad,
               ValidateFail 1 (error_str L (projl (model_validate_json L bad))),
               ExtractEntry 2 good, ValidatePass 2],
      o_last_json_text = good\<rparr>"
proof -
  from b obtain e where e: "model_validate_json L bad = Inl e"
    by (cases "model_validate_json L bad") (auto simp: rejects_def)
  have "py_slice_to [bad, good] 2 = [bad, good]" by (simp add: py_slice_to_def)
  then show ?thesis by (simp add: run_offline_agent_def e g)
qed

text \<open>
  Claim C4, for a budget that is not negative. \<^verbatim>\<open>run_offline_agent\<close> is the
  replay of the first \<open>max_attempts\<close> candidates: it stops at the first one
  that validates and returns its dump, and otherwise returns no result, the
  whole log and the last candidate seen; the candidates it considers (the
  extract entries of its log) are at most \<open>max_attempts\<close>; the result is not
  \<^verbatim>\<open>None\<close> exactly when one of the candidates considered validates. For an
  invalid candidate followed by a valid one and a budget of 2 the result is the
  dump of the valid one and the log has four entries.
\<close>

theorem offline_replay_within_budget:
  assumes "0 \<le> m"
  shows "run_offline_agent L raw outs m = replay L (take (nat m) outs)
   \<and> int (count_step ''extract'' (o_log (run_offline_agent L raw outs m))) \<le> m
   \<and> count_step ''extract'' (o_log (run_offline_agent L raw outs m)) \<le> length outs
   \<and> (o_result (run_offline_agent L raw outs m) \<noteq> None) =
       (\<exists>out\<in>set (take (nat m) outs). \<not> rejects L out)
   \<and> (rejects L bad \<and> model_validate_json L good = Inr d \<longrightarrow>
        o_result (run_offline_agent L raw [bad, good] 2) = Some (model_dump d) \<and>
        o_log (run_offline_agent L raw [bad, good] 2) =
          [ExtractEntry 1 bad, ValidateFail 1 (error_str L (projl (model_validate_json L bad))),
           ExtractEntry 2 good, ValidatePass 2] \<and>
        o_last_json_text (run_offline_agent L raw [bad, good] 2) = good \<and>
        3 \<le> length (o_log (run_offline_agent L raw [bad, good] 2)))"
proof -
  have 1: "run_offline_agent L raw outs m = replay L (take (nat m) outs)"
    by (simp add: run_offline_agent_replay slice_nonneg[OF assms])
  have "count_step ''extract'' (o_log (replay L (take (nat m) outs))) \<le> length (take (nat m) outs)"
    by (rule count_extract_replay)
  then have c: "count_step ''extract'' (o_log (run_offline_agent L raw outs m)) \<le> min (length outs) (nat m)"
    by (simp add: 1)
  from c assms have 2: "int (count_step ''extract'' (o_log (run_offline_agent L raw outs m))) \<le> m"
    by linarith
  from c have 3: "count_step ''extract'' (o_log (run_offline_agent L raw outs m)) \<le> length outs"
    by simp
  have 4: "(o_result (run_offline_agent L raw outs m) \<noteq> None) =
       (\<exists>out\<in>set (take (nat m) outs). \<not> rejects L out)"
    unfolding 1 by (rule replay_result)
  have 5: "rejects L bad \<and> model_validate_json L good = Inr d \<longrightarrow>
        o_result (run_offline_agent L raw [bad, good] 2) = Some (model_dump d) \<and>
        o_log (run_offline_agent L raw [bad, good] 2) =
          [ExtractEntry 1 bad, ValidateFail 1 (error_str L (projl (model_validate_json L bad))),
           ExtractEntry 2 good, ValidatePass 2] \<and>
        o_last_json_text (run_offline_agent L raw [bad, good] 2) = good \<and>
        3 \<le> length (o_log (run_offline_agent L raw [bad, good] 2))"
    by (auto simp: offline_fail_then_pass)
  from 1 2 3 4 5 show ?thesis by blast
qed

theorem offline_replay_within_budget_witness:
  "o_result (run_offline_agent test_pydantic ''raw'' [bad_text, good_text] 2) \<noteq> None
   \<and> o_log (run_offline_agent test_pydantic ''raw'' [bad_text, good_text] 2) =
        [ExtractEntry 1 bad_text, ValidateFail 1 ''validation error'',
         ExtractEntry 2 good_text, ValidatePass 2]
   \<and> 3 \<le> length (o_log (run_offline_agent test_pydantic ''raw'' [bad_text, good_text] 2))
   \<and> int (count_step ''extract''
        (o_log (run_offline_agent test_pydantic ''raw'' [bad_text, bad_text, bad_text] 2))) \<le> 2"
proof -
  have m: "(0::int) \<le> 2" by simp
  have b: "rejects test_pydantic bad_text" by code_simp
  have "\<not> isl (model_validate_json test_pydantic good_text)" by code_simp
  then obtain d where g: "model_validate_json test_pydantic good_text = Inr d"
    by (cases "model_validate_json test_pydantic good_text") auto
  have e: "error_str test_pydantic = (\<lambda>es. ''validation error'')" by (simp add: test_pydantic_def)
  note t = offline_replay_within_budget[OF m, of test_pydantic "''raw''"
      "[bad_text, bad_text, bad_text]" bad_text good_text d]
  from t have 1: "int (count_step ''extract''
        (o_log (run_offline_agent test_pydantic ''raw'' [bad_text, bad_text, bad_text] 2))) \<le> 2"
    by blast
  from t b g have 2: "o_result (run_offline_agent test_pydantic ''raw'' [bad_text, good_text] 2) =
      Some (model_dump d)"
    and 3: "o_log (run_offline_agent test_pydantic ''raw'' [bad_text, good_text] 2) =
        [ExtractEntry 1 bad_text,
         ValidateFail 1 (error_str test_pydantic (projl (model_validate_json test_pydantic bad_text))),
         ExtractEntry 2 good_text, ValidatePass 2]"
    and 4: "3 \<le> length (o_log (run_offline_agent test_pydantic ''raw'' [bad_text, good_text] 2))"
    by blast+
  from 1 2 3 4 show ?thesis by (simp add: e)
qed

text \<open>
  The claim as stated fails for a negative budget: \<^verbatim>\<open>outputs[:-1]\<close> is all
  but the last candidate, so with three invalid candidates and
  \<open>max_attempts = -1\<close> two candidates are considered.
\<close>

theorem offline_negative_budget_counterexample:
  "count_step ''extract''
     (o_log (run_offline_agent test_pydantic ''raw'' [bad_text, bad_text, bad_text] (- 1))) = 2
   \<and> \<not> int (count_step ''extract''
     (o_log (run_offline_agent test_pydantic ''raw'' [bad_text, bad_text, bad_text] (- 1)))) \<le> - 1"
proof -
  have "count_step ''extract''
     (o_log (run_offline_agent test_pydantic ''raw'' [bad_text, bad_text, bad_text] (- 1))) = 2"
    by code_simp
  then show ?thesis by simp
qed

end
